theory Spec2Isabelle
  imports Main "HOL-Library.List_Lexorder"
begin

section \<open>The document the tree view runs on\<close>

text \<open>
  The class \<^verbatim>\<open>A11YTreeViewNavigation\<close> keeps no tree of its own: every method walks the
  host document through the DOM interfaces. The document is therefore modelled first.

  An element has a tag name, a class list, its own text and its child elements. The
  interfaces the class uses (\<^verbatim>\<open>nextElementSibling\<close>, \<^verbatim>\<open>previousElementSibling\<close>,
  \<^verbatim>\<open>parentElement\<close>, \<^verbatim>\<open>closest\<close>, \<^verbatim>\<open>querySelector\<close>) never see a text node, so the
  text nodes of an element are kept as one string, read only by \<^verbatim>\<open>textContent\<close>, where the
  element's own text stands before the text of its child elements.

  An element is addressed by its path: the child indices leading to it from the root of
  the model, which stands for the \<^verbatim>\<open>Document\<close> node itself (path \<open>[]\<close>). The class never
  removes or moves an element, and \<^verbatim>\<open>appendChild\<close> adds a last child, so a path names
  the same element for the whole life of the page.

  Attributes live in a store indexed by path and attribute name; \<^verbatim>\<open>setAttribute\<close> updates
  the store and leaves the tree alone. The element that has focus
  (\<^verbatim>\<open>document.activeElement\<close>) and the installed listeners complete the state.
\<close>

datatype node =
  Element (tagName: string) (classList: "string list") (ownText: string) (childNodes: "node list")

type_synonym path = "nat list"

record state =
  document :: node
  attrs :: "path \<Rightarrow> string \<Rightarrow> string option"
  activeElement :: "path option"
  keydownListeners :: "path list"
  clickListeners :: "path list"

datatype error = TypeError | SyntaxError

text \<open>
  A method either completes with a value or throws. A thrown exception does not undo
  the writes made before it, so every effectful method returns the state beside its
  completion.
\<close>

datatype 'a completion = Normal 'a | Throw error

subsection \<open>Reading the tree\<close>

fun node_at :: "node \<Rightarrow> path \<Rightarrow> node option" where
  "node_at n [] = Some n"
| "node_at n (i # p) =
     (if i < length (childNodes n) then node_at (childNodes n ! i) p else None)"

definition exists_at :: "state \<Rightarrow> path \<Rightarrow> bool" where
  "exists_at s p = (node_at (document s) p \<noteq> None)"

definition tag_of :: "state \<Rightarrow> path \<Rightarrow> string" where
  "tag_of s p = (case node_at (document s) p of Some n \<Rightarrow> tagName n | None \<Rightarrow> [])"

definition classList_contains :: "state \<Rightarrow> path \<Rightarrow> string \<Rightarrow> bool" where
  "classList_contains s p c =
     (case node_at (document s) p of Some n \<Rightarrow> c \<in> set (classList n) | None \<Rightarrow> False)"

definition child_count :: "state \<Rightarrow> path \<Rightarrow> nat" where
  "child_count s p =
     (case node_at (document s) p of Some n \<Rightarrow> length (childNodes n) | None \<Rightarrow> 0)"

definition children :: "state \<Rightarrow> path \<Rightarrow> path list" where
  "children s p = map (\<lambda>i. p @ [i]) [0 ..< child_count s p]"

text \<open>\<^verbatim>\<open>parentNode\<close>: \<^verbatim>\<open>null\<close> for the document, the document for the root element.\<close>

definition parentNode :: "path \<Rightarrow> path option" where
  "parentNode p = (if p = [] then None else Some (butlast p))"

text \<open>\<^verbatim>\<open>parentElement\<close>: as \<^verbatim>\<open>parentNode\<close>, but \<^verbatim>\<open>null\<close> when the parent is the document.\<close>

definition parentElement :: "path \<Rightarrow> path option" where
  "parentElement p = (if length p \<le> 1 then None else Some (butlast p))"

definition nextElementSibling :: "state \<Rightarrow> path \<Rightarrow> path option" where
  "nextElementSibling s p =
     (if p = [] then None
      else if Suc (last p) < child_count s (butlast p)
        then Some (butlast p @ [Suc (last p)]) else None)"

definition previousElementSibling :: "state \<Rightarrow> path \<Rightarrow> path option" where
  "previousElementSibling s p =
     (if p = [] then None
      else if 0 < last p \<and> last p < child_count s (butlast p)
        then Some (butlast p @ [last p - 1]) else None)"

text \<open>All descendants of a node in document order (preorder), as paths below it.\<close>

fun below :: "node \<Rightarrow> path list"
  and below_list :: "nat \<Rightarrow> node list \<Rightarrow> path list" where
  "below (Element t c x ns) = below_list 0 ns"
| "below_list i [] = []"
| "below_list i (n # ns) = [i] # map ((#) i) (below n) @ below_list (Suc i) ns"

definition descendants :: "state \<Rightarrow> path \<Rightarrow> path list" where
  "descendants s p =
     (case node_at (document s) p of Some n \<Rightarrow> map ((@) p) (below n) | None \<Rightarrow> [])"

fun textContent_node :: "node \<Rightarrow> string" where
  "textContent_node (Element t c x ns) = x @ concat (map textContent_node ns)"

definition textContent :: "state \<Rightarrow> path \<Rightarrow> string" where
  "textContent s p =
     (case node_at (document s) p of Some n \<Rightarrow> textContent_node n | None \<Rightarrow> [])"

subsection \<open>Attributes\<close>

definition getAttribute :: "state \<Rightarrow> path \<Rightarrow> string \<Rightarrow> string option" where
  "getAttribute s p a = attrs s p a"

definition hasAttribute :: "state \<Rightarrow> path \<Rightarrow> string \<Rightarrow> bool" where
  "hasAttribute s p a = (attrs s p a \<noteq> None)"

definition setAttribute :: "path \<Rightarrow> string \<Rightarrow> string \<Rightarrow> state \<Rightarrow> state" where
  "setAttribute p a v s = s\<lparr>attrs := (attrs s)(p := (attrs s p)(a \<mapsto> v))\<rparr>"

text \<open>
  \<^verbatim>\<open>appendChild\<close> of a freshly created element: it becomes the last child, so no other
  path changes; its attributes are those given to it before it was attached.
\<close>

fun append_at :: "node \<Rightarrow> path \<Rightarrow> node \<Rightarrow> node" where
  "append_at (Element t c x ns) [] m = Element t c x (ns @ [m])"
| "append_at (Element t c x ns) (i # p) m =
     (if i < length ns then Element t c x (ns[i := append_at (ns ! i) p m])
      else Element t c x ns)"

definition appendChild ::
  "path \<Rightarrow> node \<Rightarrow> (string \<Rightarrow> string option) \<Rightarrow> state \<Rightarrow> state" where
  "appendChild p m as s =
     s\<lparr>document := append_at (document s) p m,
       attrs := (attrs s)((p @ [child_count s p]) := as)\<rparr>"

subsection \<open>Selectors\<close>

text \<open>
  The selectors of the class are compound selectors (a conjunction of simple tests on
  one element), used in two shapes: alone, matched against every descendant of the
  element queried (\<^verbatim>\<open>'.menu__link'\<close>, \<^verbatim>\<open>'ul:not(.menu--level-1)'\<close>, \<^verbatim>\<open>'a'\<close>,
  \<^verbatim>\<open>'[aria-role="tree-item"]'\<close>), or as a chain of child steps from the element queried
  (\<^verbatim>\<open>':scope > ul'\<close>, \<^verbatim>\<open>':scope > li > [aria-role="tree-item"]'\<close>,
  \<^verbatim>\<open>':scope > ul > li:last-of-type > [aria-role="tree-item"]'\<close>).
\<close>

datatype simple =
  Tag string | Class string | NotClass string | AttrEq string string | LastOfType

type_synonym compound = "simple list"

text \<open>\<^verbatim>\<open>:last-of-type\<close>: no later sibling has the same tag name.\<close>

definition last_of_type :: "state \<Rightarrow> path \<Rightarrow> bool" where
  "last_of_type s p =
     (p \<noteq> [] \<and>
      list_all (\<lambda>i. tag_of s (butlast p @ [i]) \<noteq> tag_of s p)
        [Suc (last p) ..< child_count s (butlast p)])"

fun matches_simple :: "state \<Rightarrow> path \<Rightarrow> simple \<Rightarrow> bool" where
  "matches_simple s p (Tag t) = (tag_of s p = t)"
| "matches_simple s p (Class c) = classList_contains s p c"
| "matches_simple s p (NotClass c) = (\<not> classList_contains s p c)"
| "matches_simple s p (AttrEq a v) = (getAttribute s p a = Some v)"
| "matches_simple s p LastOfType = last_of_type s p"

definition matches :: "state \<Rightarrow> compound \<Rightarrow> path \<Rightarrow> bool" where
  "matches s c p = list_all (matches_simple s p) c"

definition querySelectorAll :: "state \<Rightarrow> path \<Rightarrow> compound \<Rightarrow> path list" where
  "querySelectorAll s p c = filter (matches s c) (descendants s p)"

text \<open>\<^verbatim>\<open>querySelector\<close>: the first match in document order, or \<^verbatim>\<open>null\<close>.\<close>

definition first_of :: "'a list \<Rightarrow> 'a option" where
  "first_of xs = (case xs of [] \<Rightarrow> None | x # _ \<Rightarrow> Some x)"

definition querySelector :: "state \<Rightarrow> path \<Rightarrow> compound \<Rightarrow> path option" where
  "querySelector s p c = first_of (querySelectorAll s p c)"

text \<open>\<^verbatim>\<open>':scope > c1 > ... > cn'\<close>: child steps from the elements \<open>ps\<close>.\<close>

fun child_steps :: "state \<Rightarrow> path list \<Rightarrow> compound list \<Rightarrow> path list" where
  "child_steps s ps [] = ps"
| "child_steps s ps (c # cs) =
     child_steps s (concat (map (\<lambda>p. filter (matches s c) (children s p)) ps)) cs"

definition querySelectorAll_scope :: "state \<Rightarrow> path \<Rightarrow> compound list \<Rightarrow> path list" where
  "querySelectorAll_scope s p cs = child_steps s [p] cs"

definition querySelector_scope :: "state \<Rightarrow> path \<Rightarrow> compound list \<Rightarrow> path option" where
  "querySelector_scope s p cs = first_of (querySelectorAll_scope s p cs)"

text \<open>
  \<^verbatim>\<open>closest\<close>: the element itself or its nearest ancestor element that matches; the
  document node is not an element and ends the walk.
\<close>

fun closest :: "state \<Rightarrow> path \<Rightarrow> compound \<Rightarrow> path option" where
  "closest s [] c = None"
| "closest s (i # p) c =
     (if matches s c (i # p) then Some (i # p) else closest s (butlast (i # p)) c)"

text \<open>
  A selector \<^verbatim>\<open>'#' + id\<close> is valid only when \<open>id\<close> is a CSS identifier: name characters,
  not starting with a digit, nor with a hyphen followed by a digit or by nothing.
  \<^verbatim>\<open>document.querySelector\<close> throws a \<^verbatim>\<open>SyntaxError\<close> on anything else.
\<close>

definition is_digit :: "char \<Rightarrow> bool" where
  "is_digit c = (48 \<le> (of_char c :: nat) \<and> (of_char c :: nat) \<le> 57)"

definition is_name_start :: "char \<Rightarrow> bool" where
  "is_name_start c =
     (let n = (of_char c :: nat)
      in (65 \<le> n \<and> n \<le> 90) \<or> (97 \<le> n \<and> n \<le> 122) \<or> n = 95)"

definition is_name_char :: "char \<Rightarrow> bool" where
  "is_name_char c = (is_name_start c \<or> is_digit c \<or> c = CHR ''-'')"

definition css_identifier :: "string \<Rightarrow> bool" where
  "css_identifier v =
     (list_all is_name_char v \<and>
      (case v of
         [] \<Rightarrow> False
       | c # r \<Rightarrow>
           if c = CHR ''-''
           then (case r of [] \<Rightarrow> False | d # _ \<Rightarrow> is_name_start d \<or> d = CHR ''-'')
           else is_name_start c))"

definition querySelector_id :: "state \<Rightarrow> string \<Rightarrow> path option completion" where
  "querySelector_id s v =
     (if css_identifier v
      then Normal (first_of (filter (\<lambda>q. getAttribute s q ''id'' = Some v) (descendants s [])))
      else Throw SyntaxError)"

section \<open>Strings\<close>

text \<open>
  Strings are ASCII character lists. \<^verbatim>\<open>\s\<close> and \<^verbatim>\<open>trim\<close> take the ASCII white space
  (tab, line feed, vertical tab, form feed, carriage return, space); \<^verbatim>\<open>\w\<close> is
  \<^verbatim>\<open>[A-Za-z0-9_]\<close>.
\<close>

definition is_space :: "char \<Rightarrow> bool" where
  "is_space c = ((9 \<le> (of_char c :: nat) \<and> (of_char c :: nat) \<le> 13) \<or> c = CHR '' '')"

definition is_word :: "char \<Rightarrow> bool" where
  "is_word c = (is_name_start c \<or> is_digit c)"

definition lower_char :: "char \<Rightarrow> char" where
  "lower_char c =
     (if 65 \<le> (of_char c :: nat) \<and> (of_char c :: nat) \<le> 90
      then char_of ((of_char c :: nat) + 32) else c)"

definition toLowerCase :: "string \<Rightarrow> string" where
  "toLowerCase str = map lower_char str"

definition trim :: "string \<Rightarrow> string" where
  "trim str = rev (dropWhile is_space (rev (dropWhile is_space str)))"

text \<open>\<^verbatim>\<open>replace(/X+/g, '-')\<close> for a character class \<open>X\<close>: every maximal run becomes one hyphen.\<close>

function replace_runs :: "(char \<Rightarrow> bool) \<Rightarrow> string \<Rightarrow> string" where
  "replace_runs X [] = []"
| "replace_runs X (c # cs) =
     (if X c then CHR ''-'' # replace_runs X (dropWhile X cs) else c # replace_runs X cs)"
  by pat_completeness auto
termination
  by (relation "measure (\<lambda>(X, cs). length cs)")
     (auto simp: length_dropWhile_le le_imp_less_Suc)

text \<open>\<^verbatim>\<open>replace(pattern, replacement)\<close> with a string pattern: the first occurrence only.\<close>

fun replace_first :: "string \<Rightarrow> string \<Rightarrow> string \<Rightarrow> string" where
  "replace_first pat rep [] = (if pat = [] then rep else [])"
| "replace_first pat rep (c # cs) =
     (if take (length pat) (c # cs) = pat then rep @ drop (length pat) (c # cs)
      else c # replace_first pat rep cs)"

section \<open>Focus and the tab order\<close>

text \<open>
  The \<^verbatim>\<open>tabindex\<close> attribute is read as an integer: leading white space (tab, line feed,
  form feed, carriage return, space), an optional sign, then digits; what follows the
  digits is ignored.
\<close>

definition is_ascii_whitespace :: "char \<Rightarrow> bool" where
  "is_ascii_whitespace c = ((of_char c :: nat) \<in> set [9, 10, 12, 13, 32])"

definition digits_value :: "string \<Rightarrow> int option" where
  "digits_value v =
     (case takeWhile is_digit v of
        [] \<Rightarrow> None
      | ds \<Rightarrow> Some (foldl (\<lambda>a d. 10 * a + (int (of_char d) - 48)) 0 ds))"

definition parse_integer :: "string \<Rightarrow> int option" where
  "parse_integer v =
     (case dropWhile is_ascii_whitespace v of
        [] \<Rightarrow> None
      | c # r \<Rightarrow>
          if c = CHR ''-'' then map_option uminus (digits_value r)
          else if c = CHR ''+'' then digits_value r
          else digits_value (c # r))"

text \<open>
  The elements that can take the focus: one whose \<^verbatim>\<open>tabindex\<close> attribute is an integer; a
  link or an area with \<^verbatim>\<open>href\<close>; a form control that is not disabled; an \<^verbatim>\<open>iframe\<close>; the
  summary of a \<^verbatim>\<open>details\<close> element (its first \<^verbatim>\<open>summary\<close> child); an editing host
  (\<^verbatim>\<open>contenteditable\<close> empty, \<^verbatim>\<open>true\<close> or \<^verbatim>\<open>plaintext-only\<close>). \<^verbatim>\<open>focus()\<close> moves the focus to
  such an element and does nothing on any other. (Style sheets are outside the
  repository: every element counts as rendered.)
\<close>

definition summary_for_details :: "state \<Rightarrow> path \<Rightarrow> bool" where
  "summary_for_details s p =
     (p \<noteq> [] \<and> tag_of s p = ''summary'' \<and> tag_of s (butlast p) = ''details'' \<and>
      list_all (\<lambda>i. tag_of s (butlast p @ [i]) \<noteq> ''summary'') [0 ..< last p])"

definition editing_host :: "state \<Rightarrow> path \<Rightarrow> bool" where
  "editing_host s p =
     (case getAttribute s p ''contenteditable'' of
        None \<Rightarrow> False
      | Some v \<Rightarrow> toLowerCase v \<in> set [[], ''true'', ''plaintext-only''])"

definition focusable :: "state \<Rightarrow> path \<Rightarrow> bool" where
  "focusable s p =
     (p \<noteq> [] \<and> exists_at s p \<and>
      ((case getAttribute s p ''tabindex'' of
          None \<Rightarrow> False
        | Some v \<Rightarrow> parse_integer v \<noteq> None) \<or>
       (tag_of s p \<in> set [''a'', ''area''] \<and> hasAttribute s p ''href'') \<or>
       (tag_of s p \<in> set [''button'', ''input'', ''select'', ''textarea''] \<and>
        \<not> hasAttribute s p ''disabled'') \<or>
       tag_of s p = ''iframe'' \<or>
       summary_for_details s p \<or>
       editing_host s p))"

definition focus :: "path \<Rightarrow> state \<Rightarrow> state" where
  "focus p s = (if focusable s p then s\<lparr>activeElement := Some p\<rparr> else s)"

text \<open>
  The \<^verbatim>\<open>tabIndex\<close> property is the integer of the \<^verbatim>\<open>tabindex\<close> attribute; without a valid
  attribute it is 0 on links and form controls and -1 elsewhere.
\<close>

definition default_tabIndex :: "state \<Rightarrow> path \<Rightarrow> int" where
  "default_tabIndex s p =
     (if (tag_of s p = ''a'' \<and> hasAttribute s p ''href'') \<or>
         tag_of s p \<in> set [''button'', ''input'', ''select'', ''textarea'']
      then 0 else - 1)"

definition tabIndex :: "state \<Rightarrow> path \<Rightarrow> int" where
  "tabIndex s p =
     (case getAttribute s p ''tabindex'' of
        None \<Rightarrow> default_tabIndex s p
      | Some v \<Rightarrow> (case parse_integer v of None \<Rightarrow> default_tabIndex s p | Some i \<Rightarrow> i))"

section \<open>The class A11YTreeViewNavigation\<close>

subsection \<open>Static utility methods\<close>

definition cleanForId :: "string \<Rightarrow> string" where
  "cleanForId str =
     replace_first ''open'' []
       (replace_runs (\<lambda>c. c = CHR ''-'')
         (replace_runs is_space
           (filter (\<lambda>c. is_word c \<or> is_space c \<or> c = CHR ''-'')
             (trim (toLowerCase str)))))"

definition isExpandable :: "state \<Rightarrow> path \<Rightarrow> bool" where
  "isExpandable s treeItem = hasAttribute s treeItem ''aria-expanded''"

definition isExpanded :: "state \<Rightarrow> path \<Rightarrow> bool" where
  "isExpanded s treeItem = (getAttribute s treeItem ''aria-expanded'' = Some ''true'')"

text \<open>
  \<^verbatim>\<open>isVisible\<close> reads the element before the item's nearest list. \<^verbatim>\<open>closest('ul')\<close> is
  \<^verbatim>\<open>null\<close> for an element outside every list, and reading a property of \<^verbatim>\<open>null\<close> throws.
\<close>

definition isVisible :: "state \<Rightarrow> path \<Rightarrow> bool completion" where
  "isVisible s treeItem =
     (case closest s treeItem [Tag ''ul''] of
        None \<Rightarrow> Throw TypeError
      | Some ul \<Rightarrow>
          (case previousElementSibling s ul of
             None \<Rightarrow> Normal False
           | Some parentTreeItem \<Rightarrow>
               if \<not> isExpanded s parentTreeItem then Normal False else Normal True))"

definition getGroupNode :: "state \<Rightarrow> path \<Rightarrow> path option completion" where
  "getGroupNode s treeItem =
     (case getAttribute s treeItem ''aria-owns'' of
        None \<Rightarrow> Normal None
      | Some v \<Rightarrow> if v = [] then Normal None else querySelector_id s v)"

subsection \<open>Static attribute management\<close>

text \<open>The loop of \<^verbatim>\<open>updateActiveTree\<close>, from \<open>current\<close> up to the root element.\<close>

function updateActiveTree_from :: "path option \<Rightarrow> state \<Rightarrow> state" where
  "updateActiveTree_from None s = s"
| "updateActiveTree_from (Some current) s =
     updateActiveTree_from (parentElement current)
       (if classList_contains s current ''menu-item''
        then (case querySelector s current [Tag ''a''] of
                None \<Rightarrow> s
              | Some parentLink \<Rightarrow>
                  if hasAttribute s parentLink ''aria-expanded''
                  then setAttribute parentLink ''aria-expanded'' ''true'' s else s)
        else s)"
  by pat_completeness auto
termination
  by (relation "measure (\<lambda>(c, s). case c of None \<Rightarrow> 0 | Some p \<Rightarrow> Suc (length p))")
     (auto simp: parentElement_def split: if_splits)

definition updateActiveTree :: "path \<Rightarrow> state \<Rightarrow> state" where
  "updateActiveTree activeItem s = updateActiveTree_from (parentElement activeItem) s"

definition collapseTreeItem :: "path \<Rightarrow> state \<Rightarrow> state" where
  "collapseTreeItem treeItem s =
     (if isExpandable s treeItem \<and> isExpanded s treeItem
      then setAttribute treeItem ''aria-expanded'' ''false'' s else s)"

definition expandTreeItem :: "path \<Rightarrow> state \<Rightarrow> state" where
  "expandTreeItem treeItem s =
     (if isExpandable s treeItem \<and> \<not> isExpanded s treeItem
      then setAttribute treeItem ''aria-expanded'' ''true'' s else s)"

subsection \<open>Moving the focus\<close>

text \<open>
  \<^verbatim>\<open>setFocusToTreeItem\<close> receives what a query or an array index returned; on \<^verbatim>\<open>null\<close> or
  \<^verbatim>\<open>undefined\<close> the call \<^verbatim>\<open>treeItem.focus()\<close> throws.
\<close>

definition setFocusToTreeItem :: "path option \<Rightarrow> state \<Rightarrow> unit completion \<times> state" where
  "setFocusToTreeItem treeItem s =
     (case treeItem of
        None \<Rightarrow> (Throw TypeError, s)
      | Some p \<Rightarrow> (Normal (), focus p s))"

definition tree_item :: compound where
  "tree_item = [AttrEq ''aria-role'' ''tree-item'']"

text \<open>
  The three branches of \<^verbatim>\<open>setFocusToNextTreeItem\<close>. The second and third start with
  \<^verbatim>\<open>!isExpanded(treeItem)\<close>, so an expanded item whose list has no item leaves all three.
\<close>

definition setFocusToNextTreeItem :: "path \<Rightarrow> state \<Rightarrow> unit completion \<times> state" where
  "setFocusToNextTreeItem treeItem s =
     (if isExpanded s treeItem then
        (case nextElementSibling s treeItem of
           None \<Rightarrow> (Throw TypeError, s)
         | Some subMenu \<Rightarrow>
             let subMenuTreeItems = querySelectorAll_scope s subMenu [[Tag ''li''], tree_item]
             in if length subMenuTreeItems > 0
                then setFocusToTreeItem (Some (subMenuTreeItems ! 0)) s
                else (Normal (), s))
      else
        (case parentNode treeItem of
           None \<Rightarrow> (Throw TypeError, s)
         | Some entry \<Rightarrow>
             (case nextElementSibling s entry of
                Some sibling \<Rightarrow> setFocusToTreeItem (querySelector s sibling tree_item) s
              | None \<Rightarrow>
                  (case closest s treeItem [Tag ''ul''] of
                     None \<Rightarrow> (Throw TypeError, s)
                   | Some ul \<Rightarrow>
                       (case parentNode ul of
                          None \<Rightarrow> (Throw TypeError, s)
                        | Some owner \<Rightarrow>
                            (case nextElementSibling s owner of
                               None \<Rightarrow> (Normal (), s)
                             | Some nextParentGroupItem \<Rightarrow>
                                 (case querySelector_scope s nextParentGroupItem [tree_item] of
                                    None \<Rightarrow> (Normal (), s)
                                  | Some p \<Rightarrow> (Normal (), focus p s))))))))"

definition setFocusToPreviousTreeItem :: "path \<Rightarrow> state \<Rightarrow> unit completion \<times> state" where
  "setFocusToPreviousTreeItem treeItem s =
     (case parentNode treeItem of
        None \<Rightarrow> (Throw TypeError, s)
      | Some entry \<Rightarrow>
          (case previousElementSibling s entry of
             Some previous \<Rightarrow>
               (case querySelector s previous tree_item of
                  None \<Rightarrow> (Throw TypeError, s)
                | Some siblingTreeItem \<Rightarrow>
                    if \<not> isExpanded s siblingTreeItem
                    then setFocusToTreeItem (Some siblingTreeItem) s
                    else setFocusToTreeItem
                           (querySelector_scope s previous
                              [[Tag ''ul''], [Tag ''li'', LastOfType], tree_item]) s)
           | None \<Rightarrow>
               (case parentNode entry of
                  None \<Rightarrow> (Throw TypeError, s)
                | Some ul \<Rightarrow>
                    (case previousElementSibling s ul of
                       Some parentLink \<Rightarrow> setFocusToTreeItem (Some parentLink) s
                     | None \<Rightarrow> (Normal (), s)))))"

subsection \<open>The instance and its queries\<close>

text \<open>
  The fields the constructor sets. On an inert instance the fields are \<^verbatim>\<open>undefined\<close>; it
  is modelled with no tree node and empty lists, on which every method that reads them
  throws as it does on \<^verbatim>\<open>undefined\<close>.
\<close>

record treeview =
  treeNode :: "path option"
  treeItems :: "path list"
  subMenus :: "path list"

definition inert :: treeview where
  "inert = \<lparr>treeNode = None, treeItems = [], subMenus = []\<rparr>"

text \<open>Array indexing: \<^verbatim>\<open>undefined\<close> outside the array, also at index -1.\<close>

definition at_index :: "'a list \<Rightarrow> int \<Rightarrow> 'a option" where
  "at_index xs i = (if 0 \<le> i \<and> i < int (length xs) then Some (xs ! nat i) else None)"

fun visible_from :: "state \<Rightarrow> path list \<Rightarrow> path list \<Rightarrow> path list completion" where
  "visible_from s [] items = Normal items"
| "visible_from s (item # rest) items =
     (case isVisible s item of
        Throw e \<Rightarrow> Throw e
      | Normal b \<Rightarrow> visible_from s rest (if b then items @ [item] else items))"

definition getVisibleTreeItems :: "treeview \<Rightarrow> state \<Rightarrow> path list completion" where
  "getVisibleTreeItems this s = visible_from s (treeItems this) []"

subsection \<open>Event handlers\<close>

record keyboardEvent =
  currentTarget :: path
  key :: string
  altKey :: bool
  ctrlKey :: bool
  metaKey :: bool

text \<open>
  The handler's result is its \<^verbatim>\<open>flag\<close>: whether it stopped the event
  (\<^verbatim>\<open>stopPropagation\<close>, \<^verbatim>\<open>preventDefault\<close>).
\<close>

definition consumed :: "unit completion \<times> state \<Rightarrow> bool completion \<times> state" where
  "consumed r = (case r of (Normal u, s) \<Rightarrow> (Normal True, s) | (Throw e, s) \<Rightarrow> (Throw e, s))"

text \<open>The jump of \<^verbatim>\<open>ArrowDown\<close> from the last item of a level-2 list to the next section.\<close>

definition focusNextSection :: "path \<Rightarrow> state \<Rightarrow> unit completion \<times> state" where
  "focusNextSection ct s =
     (case closest s ct [Class ''book-navigation''] of
        None \<Rightarrow> (Throw TypeError, s)
      | Some nav \<Rightarrow>
          (case nextElementSibling s nav of
             None \<Rightarrow> (Normal (), s)
           | Some section \<Rightarrow>
               (case querySelector s section [Class ''menu__link--level-1''] of
                  None \<Rightarrow> (Normal (), s)
                | Some p \<Rightarrow> (Normal (), focus p s))))"

definition onKeydown :: "treeview \<Rightarrow> keyboardEvent \<Rightarrow> state \<Rightarrow> bool completion \<times> state" where
  "onKeydown this event s =
     (let ct = currentTarget event; k = key event
      in if altKey event \<or> ctrlKey event \<or> metaKey event then (Normal False, s)
         else if k = '' '' then (Normal True, s)
         else if k = ''Up'' \<or> k = ''ArrowUp'' then consumed (setFocusToPreviousTreeItem ct s)
         else if k = ''Down'' \<or> k = ''ArrowDown'' then
           (if classList_contains s ct ''menu__link--level-2''
            then (case closest s ct [Tag ''ul''] of
                    None \<Rightarrow> (Throw TypeError, s)
                  | Some ul \<Rightarrow>
                      if Some ct = querySelector_scope s ul [[Tag ''li'', LastOfType], tree_item]
                      then consumed (focusNextSection ct s)
                      else consumed (setFocusToNextTreeItem ct s))
            else consumed (setFocusToNextTreeItem ct s))
         else if k = ''Right'' \<or> k = ''ArrowRight'' then
           (if isExpandable s ct
            then (if isExpanded s ct then consumed (setFocusToNextTreeItem ct s)
                  else (Normal True, expandTreeItem ct s))
            else (Normal True, s))
         else if k = ''Left'' \<or> k = ''ArrowLeft'' then
           (if isExpanded s ct then (Normal True, collapseTreeItem ct s)
            else consumed (setFocusToPreviousTreeItem ct s))
         else if k = ''Home'' then consumed (setFocusToTreeItem (at_index (treeItems this) 0) s)
         else if k = ''End'' then
           (case getVisibleTreeItems this s of
              Throw e \<Rightarrow> (Throw e, s)
            | Normal visibleTreeItems \<Rightarrow>
                consumed (setFocusToTreeItem
                  (at_index visibleTreeItems (int (length visibleTreeItems) - 1)) s))
         else (Normal True, s))"

text \<open>\<^verbatim>\<open>onTriggerClick\<close>: the event's target is the trigger, its parent the item.\<close>

definition onTriggerClick :: "path \<Rightarrow> state \<Rightarrow> unit completion \<times> state" where
  "onTriggerClick trigger s =
     (case parentNode trigger of
        None \<Rightarrow> (Throw TypeError, s)
      | Some item \<Rightarrow>
          if isExpanded s item then (Normal (), collapseTreeItem item s)
          else (Normal (), expandTreeItem item s))"

subsection \<open>Set-up\<close>

text \<open>\<^verbatim>\<open>forEach\<close> with a callback that may throw: the exception ends the loop.\<close>

fun forEach ::
  "('a \<Rightarrow> state \<Rightarrow> unit completion \<times> state) \<Rightarrow> 'a list \<Rightarrow> state \<Rightarrow> unit completion \<times> state"
where
  "forEach f [] s = (Normal (), s)"
| "forEach f (x # xs) s =
     (case f x s of (Normal u, s') \<Rightarrow> forEach f xs s' | (Throw e, s') \<Rightarrow> (Throw e, s'))"

text \<open>
  The callback of \<^verbatim>\<open>adjustLinkAttributes\<close>; none of its statements can throw.
  \<^verbatim>\<open>item.tabIndex = -1\<close> writes the attribute \<^verbatim>\<open>tabindex\<close>; \<^verbatim>\<open>setAttribute('tabIndex', 0)\<close>
  writes the same attribute, since an HTML element lower-cases the name and the value
  becomes the string \<^verbatim>\<open>"0"\<close>.
\<close>

definition adjustLink :: "path \<Rightarrow> state \<Rightarrow> state" where
  "adjustLink item s =
     (let linkTextCleaned = cleanForId (textContent s item);
          s1 = setAttribute item ''aria-role'' ''tree-item'' s;
          s2 = setAttribute item ''tabindex'' ''-1'' s1;
          s3 = (if classList_contains s2 item ''is-active''
                then updateActiveTree item
                       (setAttribute item ''tabindex'' ''0''
                         (setAttribute item ''aria-current'' ''page'' s2))
                else s2)
      in if nextElementSibling s3 item \<noteq> None
         then setAttribute item ''aria-expanded'' ''false''
                (setAttribute item ''aria-owns'' linkTextCleaned s3)
         else s3)"

definition adjustLinkAttributes :: "treeview \<Rightarrow> state \<Rightarrow> state" where
  "adjustLinkAttributes this s = fold adjustLink (treeItems this) s"

definition adjustSubMenu :: "path \<Rightarrow> state \<Rightarrow> unit completion \<times> state" where
  "adjustSubMenu subMenu s =
     (case previousElementSibling s subMenu of
        None \<Rightarrow> (Throw TypeError, s)
      | Some subMenuLink \<Rightarrow>
          (Normal (),
           setAttribute subMenu ''id'' (cleanForId (textContent s subMenuLink))
             (setAttribute subMenu ''aria-role'' ''group'' s)))"

definition adjustSubMenuAttributes :: "treeview \<Rightarrow> state \<Rightarrow> unit completion \<times> state" where
  "adjustSubMenuAttributes this s = forEach adjustSubMenu (subMenus this) s"

text \<open>
  The trigger button is created for every item, and attached (with its click listener)
  only where \<^verbatim>\<open>getGroupNode\<close> found a group; a button that is not attached leaves no trace.
\<close>

definition triggerButton :: node where
  "triggerButton = Element ''button'' [''menu__link-trigger''] ''Open'' []"

definition attachTrigger :: "path \<Rightarrow> state \<Rightarrow> unit completion \<times> state" where
  "attachTrigger item s =
     (case getGroupNode s item of
        Throw e \<Rightarrow> (Throw e, s)
      | Normal None \<Rightarrow> (Normal (), s)
      | Normal (Some groupNode) \<Rightarrow>
          (let trigger = item @ [child_count s item];
               s1 = appendChild item triggerButton [''tabindex'' \<mapsto> ''-1''] s
           in (Normal (), s1\<lparr>clickListeners := clickListeners s1 @ [trigger]\<rparr>)))"

definition attachTriggers :: "treeview \<Rightarrow> state \<Rightarrow> unit completion \<times> state" where
  "attachTriggers this s = forEach attachTrigger (treeItems this) s"

definition initializeTreeViews :: "treeview \<Rightarrow> state \<Rightarrow> unit completion \<times> state" where
  "initializeTreeViews this s =
     (case treeNode this of
        None \<Rightarrow> (Throw TypeError, s)
      | Some tn \<Rightarrow>
          (let s1 = setAttribute tn ''role'' ''tree'' s;
               s2 = adjustLinkAttributes this s1
           in case adjustSubMenuAttributes this s2 of
                (Throw e, s3) \<Rightarrow> (Throw e, s3)
              | (Normal u, s3) \<Rightarrow>
                  (case attachTriggers this s3 of
                     (Throw e, s4) \<Rightarrow> (Throw e, s4)
                   | (Normal u, s4) \<Rightarrow>
                       (Normal (),
                        s4\<lparr>keydownListeners := keydownListeners s4 @ treeItems this\<rparr>))))"

subsection \<open>The constructor\<close>

text \<open>
  What a caller can pass to the constructor. \<open>JSObject\<close> is an object that is not a DOM
  node (it has no \<^verbatim>\<open>querySelector\<close> method); \<open>JSElement\<close> is an element of the document.
\<close>

datatype js_value =
  JSUndefined | JSNull | JSBoolean bool | JSNumber int | JSString string
  | JSSymbol | JSFunction | JSObject | JSElement path

fun typeof :: "js_value \<Rightarrow> string" where
  "typeof JSUndefined = ''undefined''"
| "typeof JSNull = ''object''"
| "typeof (JSBoolean b) = ''boolean''"
| "typeof (JSNumber n) = ''number''"
| "typeof (JSString x) = ''string''"
| "typeof JSSymbol = ''symbol''"
| "typeof JSFunction = ''function''"
| "typeof JSObject = ''object''"
| "typeof (JSElement p) = ''object''"

text \<open>
  Past the guard, \<^verbatim>\<open>node.querySelector(':scope > ul')\<close> throws on \<^verbatim>\<open>null\<close> (a property of
  \<^verbatim>\<open>null\<close> is read) and on an object without the method (the call of \<^verbatim>\<open>undefined\<close>);
  when the element has no list child, \<^verbatim>\<open>this.treeNode\<close> is \<^verbatim>\<open>null\<close> and the next line
  throws.
\<close>

definition constructor :: "js_value \<Rightarrow> state \<Rightarrow> treeview completion \<times> state" where
  "constructor node s =
     (if typeof node \<noteq> ''object'' then (Normal inert, s)
      else case node of
        JSElement container \<Rightarrow>
          (case querySelector_scope s container [[Tag ''ul'']] of
             None \<Rightarrow> (Throw TypeError, s)
           | Some tn \<Rightarrow>
               (let this = \<lparr>treeNode = Some tn,
                            treeItems = querySelectorAll s tn [Class ''menu__link''],
                            subMenus = querySelectorAll s tn
                                         [Tag ''ul'', NotClass ''menu--level-1'']\<rparr>
                in case initializeTreeViews this s of
                     (Throw e, s') \<Rightarrow> (Throw e, s')
                   | (Normal u, s') \<Rightarrow> (Normal this, s')))
      | _ \<Rightarrow> (Throw TypeError, s))"

section \<open>Markup\<close>

text \<open>
  The markup the class is written for: a container holding one list; every entry of a
  list is an \<^verbatim>\<open>li.menu-item\<close> whose first child is the link (\<^verbatim>\<open>a.menu__link\<close>, the Item),
  followed, when the Item owns a Group, by a nested \<^verbatim>\<open>ul\<close>. A page is the document with
  one such container; the attribute store of fresh markup is empty.
\<close>

definition link :: "string list \<Rightarrow> string \<Rightarrow> node" where
  "link cls label = Element ''a'' (''menu__link'' # cls) label []"

definition leaf :: "string list \<Rightarrow> string \<Rightarrow> node" where
  "leaf cls label = Element ''li'' [''menu-item''] [] [link cls label]"

definition branch :: "string list \<Rightarrow> string \<Rightarrow> node list \<Rightarrow> node" where
  "branch cls label entries =
     Element ''li'' [''menu-item''] [] [link cls label, Element ''ul'' [''menu''] [] entries]"

definition page :: "node list \<Rightarrow> node" where
  "page entries =
     Element ''#document'' [] []
       [Element ''nav'' [''book-navigation''] []
         [Element ''ul'' [''menu'', ''menu--level-1''] [] entries]]"

definition markup :: "node \<Rightarrow> state" where
  "markup d =
     \<lparr>document = d, attrs = (\<lambda>p. Map.empty), activeElement = None,
      keydownListeners = [], clickListeners = []\<rparr>"

definition keydown :: "path \<Rightarrow> string \<Rightarrow> keyboardEvent" where
  "keydown p k =
     \<lparr>currentTarget = p, key = k, altKey = False, ctrlKey = False, metaKey = False\<rparr>"

text \<open>A sequence of key presses; an exception ends its handler and the page goes on.\<close>

fun run_keys :: "treeview \<Rightarrow> keyboardEvent list \<Rightarrow> state \<Rightarrow> state" where
  "run_keys this [] s = s"
| "run_keys this (e # es) s = run_keys this es (snd (onKeydown this e s))"

text \<open>Three root-level items, none active, none expandable.\<close>

definition flat_page :: state where
  "flat_page = markup (page [leaf [] ''One'', leaf [] ''Two'', leaf [] ''Three''])"

definition flat_tree :: treeview where
  "flat_tree =
     \<lparr>treeNode = Some [0, 0],
      treeItems = [[0, 0, 0, 0], [0, 0, 1, 0], [0, 0, 2, 0]],
      subMenus = []\<rparr>"

text \<open>Three levels: Alpha owns One and Two, and One owns Deep; Beta is a second root item.\<close>

definition deep_page :: state where
  "deep_page =
     markup (page [branch [] ''Alpha'' [branch [] ''One'' [leaf [] ''Deep''], leaf [] ''Two''],
                   leaf [] ''Beta''])"

definition deep_tree :: treeview where
  "deep_tree =
     \<lparr>treeNode = Some [0, 0],
      treeItems = [[0, 0, 0, 0], [0, 0, 0, 1, 0, 0], [0, 0, 0, 1, 0, 1, 0, 0],
                   [0, 0, 0, 1, 1, 0], [0, 0, 1, 0]],
      subMenus = [[0, 0, 0, 1], [0, 0, 0, 1, 0, 1]]\<rparr>"

section \<open>Identifier derivation\<close>

text \<open>
  Claim C3. \<^verbatim>\<open>cleanForId\<close> applied to \<^verbatim>\<open>" Section  One! "\<close> returns \<^verbatim>\<open>"section-one"\<close>, and
  applied to \<^verbatim>\<open>"Open"\<close> it returns the empty string.
\<close>

theorem cleanForId_examples:
  "cleanForId '' Section  One! '' = ''section-one'' \<and> cleanForId ''Open'' = []"
  by code_simp

section \<open>Visibility\<close>

text \<open>
  Claim C1. The claim is that \<^verbatim>\<open>isVisible\<close> returns true for every root-level Item, so that
  \<^verbatim>\<open>getVisibleTreeItems\<close> always holds the root-level Items. On the code it does not: the
  root list has no element before it, \<^verbatim>\<open>parentTreeItem\<close> is \<^verbatim>\<open>null\<close> and \<^verbatim>\<open>isVisible\<close>
  returns false. With three root-level Items, after construction, every Item is reported
  invisible, the visible-items query is empty, and \<^verbatim>\<open>End\<close> calls \<^verbatim>\<open>focus\<close> on \<^verbatim>\<open>undefined\<close>.
\<close>

theorem root_items_reported_invisible:
  "fst (constructor (JSElement [0]) flat_page) = Normal flat_tree \<and>
   map (isVisible (snd (constructor (JSElement [0]) flat_page))) (treeItems flat_tree)
     = [Normal False, Normal False, Normal False] \<and>
   getVisibleTreeItems flat_tree (snd (constructor (JSElement [0]) flat_page)) = Normal [] \<and>
   fst (onKeydown flat_tree (keydown [0, 0, 0, 0] ''End'')
          (snd (constructor (JSElement [0]) flat_page))) = Throw TypeError"
  by code_simp

text \<open>The same tree with the deepest Item marked active in the markup.\<close>

definition active_page :: state where
  "active_page =
     markup (page [branch [] ''Alpha''
                     [branch [] ''One'' [leaf [''is-active''] ''Deep''], leaf [] ''Two''],
                   leaf [] ''Beta''])"

definition deep_state :: state where
  "deep_state = snd (constructor (JSElement [0]) deep_page)"

definition active_state :: state where
  "active_state = snd (constructor (JSElement [0]) active_page)"

section \<open>What a write can change\<close>

lemma document_setAttribute [simp]: "document (setAttribute p a v s) = document s"
  by (simp add: setAttribute_def)

lemma activeElement_setAttribute [simp]:
  "activeElement (setAttribute p a v s) = activeElement s"
  by (simp add: setAttribute_def)

lemma listeners_setAttribute [simp]:
  "keydownListeners (setAttribute p a v s) = keydownListeners s"
  "clickListeners (setAttribute p a v s) = clickListeners s"
  by (simp_all add: setAttribute_def)

lemma attrs_setAttribute:
  "attrs (setAttribute p a v s) q b = (if q = p \<and> b = a then Some v else attrs s q b)"
  by (simp add: setAttribute_def)

lemma document_focus [simp]: "document (focus p s) = document s"
  by (simp add: focus_def)

lemma attrs_focus [simp]: "attrs (focus p s) = attrs s"
  by (simp add: focus_def)

lemma listeners_focus [simp]:
  "keydownListeners (focus p s) = keydownListeners s"
  "clickListeners (focus p s) = clickListeners s"
  by (simp_all add: focus_def)

text \<open>
  The keyboard and the triggers write one attribute only, \<^verbatim>\<open>aria-expanded\<close>, and move the
  focus; \<open>expansion_only s s'\<close> says that \<open>s'\<close> differs from \<open>s\<close> in nothing else.
\<close>

definition expansion_only :: "state \<Rightarrow> state \<Rightarrow> bool" where
  "expansion_only s s' =
     (document s' = document s \<and>
      keydownListeners s' = keydownListeners s \<and>
      clickListeners s' = clickListeners s \<and>
      (\<forall>p a. a \<noteq> ''aria-expanded'' \<longrightarrow> attrs s' p a = attrs s p a))"

lemma expansion_only_refl [simp]: "expansion_only s s"
  by (simp add: expansion_only_def)

lemma expansion_only_trans:
  "expansion_only s s' \<Longrightarrow> expansion_only s' s'' \<Longrightarrow> expansion_only s s''"
  by (simp add: expansion_only_def)

lemma expansion_only_focus [simp]: "expansion_only s (focus p s)"
  by (simp add: expansion_only_def)

lemma expansion_only_set [simp]: "expansion_only s (setAttribute p ''aria-expanded'' v s)"
  by (simp add: expansion_only_def attrs_setAttribute)

lemma expansion_only_expand [simp]: "expansion_only s (expandTreeItem t s)"
  by (simp add: expandTreeItem_def)

lemma expansion_only_collapse [simp]: "expansion_only s (collapseTreeItem t s)"
  by (simp add: collapseTreeItem_def)

lemma expansion_only_setFocus [simp]: "expansion_only s (snd (setFocusToTreeItem t s))"
  by (simp add: setFocusToTreeItem_def split: option.splits)

lemma expansion_only_next [simp]: "expansion_only s (snd (setFocusToNextTreeItem t s))"
  by (simp add: setFocusToNextTreeItem_def Let_def split: option.splits)

lemma expansion_only_previous [simp]:
  "expansion_only s (snd (setFocusToPreviousTreeItem t s))"
  by (simp add: setFocusToPreviousTreeItem_def split: option.splits)

lemma expansion_only_section [simp]: "expansion_only s (snd (focusNextSection t s))"
  by (simp add: focusNextSection_def split: option.splits)

lemma snd_consumed [simp]: "snd (consumed r) = snd r"
  by (cases r) (simp add: consumed_def split: completion.splits)

lemma expansion_only_onKeydown: "expansion_only s (snd (onKeydown this e s))"
  by (simp add: onKeydown_def Let_def split: option.splits completion.splits)

lemma expansion_only_run_keys: "expansion_only s (run_keys this es s)"
proof (induction es arbitrary: s)
  case Nil
  show ?case by simp
next
  case (Cons e es)
  have "expansion_only s (snd (onKeydown this e s))"
    by (rule expansion_only_onKeydown)
  moreover have
    "expansion_only (snd (onKeydown this e s)) (run_keys this es (snd (onKeydown this e s)))"
    by (rule Cons.IH)
  ultimately show ?case by (simp add: expansion_only_trans)
qed

lemma tabIndex_expansion_only: "expansion_only s s' \<Longrightarrow> tabIndex s' p = tabIndex s p"
  by (simp add: expansion_only_def tabIndex_def default_tabIndex_def getAttribute_def
      hasAttribute_def tag_of_def split: option.splits)

section \<open>Roving focus\<close>

text \<open>The Items that are in the tab order: those whose \<^verbatim>\<open>tabIndex\<close> is 0.\<close>

definition tab_reachable :: "treeview \<Rightarrow> state \<Rightarrow> path list" where
  "tab_reachable this s = filter (\<lambda>p. tabIndex s p = 0) (treeItems this)"

text \<open>
  Claim C4. From a state in which at most one Item has \<^verbatim>\<open>tabIndex\<close> 0, after any finite
  sequence of key presses handled by \<^verbatim>\<open>onKeydown\<close> (whatever the keys, the modifiers and the
  Items they are pressed on, and whether a handler throws), at most one Item has
  \<^verbatim>\<open>tabIndex\<close> 0.
\<close>

theorem single_roving_focus:
  assumes "length (tab_reachable this s) \<le> 1"
  shows "length (tab_reachable this (run_keys this es s)) \<le> 1"
proof -
  have "expansion_only s (run_keys this es s)"
    by (rule expansion_only_run_keys)
  then have "tab_reachable this (run_keys this es s) = tab_reachable this s"
    by (simp add: tab_reachable_def tabIndex_expansion_only)
  with assms show ?thesis by simp
qed

theorem single_roving_focus_witness:
  "fst (constructor (JSElement [0]) active_page) = Normal deep_tree \<and>
   length (tab_reachable deep_tree active_state) \<le> 1 \<and>
   length (tab_reachable deep_tree
     (run_keys deep_tree
        [keydown [0, 0, 0, 0] ''ArrowLeft'', keydown [0, 0, 0, 0] ''ArrowRight'',
         keydown [0, 0, 0, 0] ''ArrowDown'', keydown [0, 0, 0, 1, 0, 0] ''End'',
         keydown [0, 0, 0, 1, 0, 1, 0, 0] ''Home'', keydown [0, 0, 0, 0] ''ArrowUp'']
        active_state)) \<le> 1"
proof -
  have c: "fst (constructor (JSElement [0]) active_page) = Normal deep_tree"
    by code_simp
  have h: "length (tab_reachable deep_tree active_state) \<le> 1"
    by code_simp
  from single_roving_focus [OF h] c h show ?thesis by blast
qed

section \<open>Expanding and collapsing\<close>

text \<open>
  Claim C9. \<^verbatim>\<open>expandTreeItem\<close> on an Item that is already expanded, or not expandable, leaves
  the whole state as it is (every attribute of every element), and so does
  \<^verbatim>\<open>collapseTreeItem\<close> on an Item that is not expanded, or not expandable; neither of them
  ever changes the element that has focus or the \<^verbatim>\<open>tabIndex\<close> of any element.
\<close>

theorem expand_collapse_idempotent:
  "(isExpanded s t \<or> \<not> isExpandable s t \<longrightarrow> expandTreeItem t s = s) \<and>
   (\<not> isExpanded s t \<or> \<not> isExpandable s t \<longrightarrow> collapseTreeItem t s = s) \<and>
   activeElement (expandTreeItem t s) = activeElement s \<and>
   activeElement (collapseTreeItem t s) = activeElement s \<and>
   tabIndex (expandTreeItem t s) p = tabIndex s p \<and>
   tabIndex (collapseTreeItem t s) p = tabIndex s p"
  by (simp add: tabIndex_expansion_only) (auto simp: expandTreeItem_def collapseTreeItem_def)

theorem expand_collapse_idempotent_witness:
  "isExpandable deep_state [0, 0, 0, 0] \<and> \<not> isExpanded deep_state [0, 0, 0, 0] \<and>
   collapseTreeItem [0, 0, 0, 0] deep_state = deep_state \<and>
   isExpanded (expandTreeItem [0, 0, 0, 0] deep_state) [0, 0, 0, 0] \<and>
   expandTreeItem [0, 0, 0, 0] (expandTreeItem [0, 0, 0, 0] deep_state)
     = expandTreeItem [0, 0, 0, 0] deep_state \<and>
   \<not> isExpandable deep_state [0, 0, 1, 0] \<and>
   expandTreeItem [0, 0, 1, 0] deep_state = deep_state \<and>
   collapseTreeItem [0, 0, 1, 0] deep_state = deep_state"
proof -
  have a: "isExpandable deep_state [0, 0, 0, 0]" by code_simp
  have b: "\<not> isExpanded deep_state [0, 0, 0, 0]" by code_simp
  have c: "isExpanded (expandTreeItem [0, 0, 0, 0] deep_state) [0, 0, 0, 0]" by code_simp
  have d: "\<not> isExpandable deep_state [0, 0, 1, 0]" by code_simp
  from a b c d
    expand_collapse_idempotent [of deep_state "[0, 0, 0, 0]"]
    expand_collapse_idempotent [of "expandTreeItem [0, 0, 0, 0] deep_state" "[0, 0, 0, 0]"]
    expand_collapse_idempotent [of deep_state "[0, 0, 1, 0]"]
  show ?thesis by blast
qed

section \<open>The constructor's guard\<close>

text \<open>
  Claim C6, as the code has it. The guard of the constructor is \<^verbatim>\<open>typeof node !== 'object'\<close>:
  for every argument whose type is not \<^verbatim>\<open>object\<close> (\<^verbatim>\<open>undefined\<close>, a boolean, a number, a
  string, a symbol, a function) construction throws nothing and produces the inert
  instance, and the state is the state before: no attribute is written, no trigger is
  injected, no listener is installed.
\<close>

theorem constructor_guard:
  assumes "typeof node \<noteq> ''object''"
  shows "constructor node s = (Normal inert, s)"
  using assms by (simp add: constructor_def)

theorem constructor_guard_witness:
  "typeof (JSString ''nav'') \<noteq> ''object'' \<and>
   constructor (JSString ''nav'') flat_page = (Normal inert, flat_page)"
proof -
  have h: "typeof (JSString ''nav'') \<noteq> ''object''" by simp
  from constructor_guard [OF h] h show ?thesis by blast
qed

text \<open>
  The claim as stated also covers \<^verbatim>\<open>null\<close> and objects that are not nodes. Their type is
  \<^verbatim>\<open>object\<close>, they pass the guard, and the first query on them throws.
\<close>

theorem constructor_null_throws:
  "fst (constructor JSNull flat_page) = Throw TypeError \<and>
   fst (constructor JSObject flat_page) = Throw TypeError"
  by code_simp

section \<open>The visible-items query\<close>

lemma visible_from_filter:
  "visible_from s xs acc = Normal vs \<Longrightarrow>
   vs = acc @ filter (\<lambda>x. isVisible s x = Normal True) xs"
proof (induction xs arbitrary: acc)
  case Nil
  then show ?case by simp
next
  case (Cons x xs)
  show ?case
  proof (cases "isVisible s x")
    case (Throw e)
    with Cons.prems show ?thesis by simp
  next
    case (Normal b)
    with Cons.prems have "visible_from s xs (if b then acc @ [x] else acc) = Normal vs"
      by simp
    from Cons.IH [OF this] Normal show ?thesis
      by (cases b) auto
  qed
qed

text \<open>The query completes when every Item has a list around it.\<close>

lemma visible_from_Normal:
  "list_all (\<lambda>i. closest s i [Tag ''ul''] \<noteq> None) xs \<Longrightarrow> \<exists>vs. visible_from s xs acc = Normal vs"
proof (induction xs arbitrary: acc)
  case Nil
  show ?case by simp
next
  case (Cons x xs)
  from Cons.prems have "\<exists>b. isVisible s x = Normal b"
    by (auto simp: isVisible_def split: option.splits)
  then obtain b where "isVisible s x = Normal b"
    by blast
  with Cons.IH [of "if b then acc @ [x] else acc"] Cons.prems show ?case
    by simp
qed

text \<open>
  Claim C2, as the code has it. \<^verbatim>\<open>isVisible\<close> looks one level up only: at the element
  before the Item's nearest list, the owning Item of the Group the Item is in. For an
  element \<open>t\<close> with such an owning Item, the Items \<^verbatim>\<open>getVisibleTreeItems\<close> returns hold
  \<open>t\<close> exactly when \<open>t\<close> is an Item of the tree and that owning Item is expanded
  (\<^verbatim>\<open>aria-expanded\<close> is \<^verbatim>\<open>"true"\<close>). So an Item under a collapsed owning Item is never
  returned, whatever its own \<^verbatim>\<open>aria-expanded\<close> attribute is, and an Item under an expanded
  owning Item is returned, whatever the state of the Items farther up.
\<close>

theorem returned_iff_owner_expanded:
  assumes "closest s t [Tag ''ul''] = Some ul"
    and "previousElementSibling s ul = Some owner"
    and "getVisibleTreeItems this s = Normal items"
  shows "t \<in> set items \<longleftrightarrow> t \<in> set (treeItems this) \<and> isExpanded s owner"
proof -
  from assms(3) have "items = filter (\<lambda>x. isVisible s x = Normal True) (treeItems this)"
    using visible_from_filter [of s "treeItems this" "[]" items]
    by (simp add: getVisibleTreeItems_def)
  moreover from assms(1,2) have "isVisible s t = Normal True \<longleftrightarrow> isExpanded s owner"
    by (simp add: isVisible_def)
  ultimately show ?thesis
    by auto
qed

text \<open>
  With Deep active at construction, Alpha and One are expanded; \<^verbatim>\<open>ArrowLeft\<close> on Alpha
  collapses it. One, under the collapsed Alpha, is not returned; Deep, under the expanded
  One, is.
\<close>

definition collapsed_state :: state where
  "collapsed_state = run_keys deep_tree [keydown [0, 0, 0, 0] ''ArrowLeft''] active_state"

theorem returned_iff_owner_expanded_witness:
  "closest collapsed_state [0, 0, 0, 1, 0, 0] [Tag ''ul''] = Some [0, 0, 0, 1] \<and>
   previousElementSibling collapsed_state [0, 0, 0, 1] = Some [0, 0, 0, 0] \<and>
   \<not> isExpanded collapsed_state [0, 0, 0, 0] \<and>
   closest collapsed_state [0, 0, 0, 1, 0, 1, 0, 0] [Tag ''ul''] = Some [0, 0, 0, 1, 0, 1] \<and>
   previousElementSibling collapsed_state [0, 0, 0, 1, 0, 1] = Some [0, 0, 0, 1, 0, 0] \<and>
   isExpanded collapsed_state [0, 0, 0, 1, 0, 0] \<and>
   getVisibleTreeItems deep_tree collapsed_state = Normal [[0, 0, 0, 1, 0, 1, 0, 0]] \<and>
   (([0, 0, 0, 1, 0, 0] :: path) \<in> set [[0, 0, 0, 1, 0, 1, 0, 0]]) =
     ([0, 0, 0, 1, 0, 0] \<in> set (treeItems deep_tree) \<and>
      isExpanded collapsed_state [0, 0, 0, 0]) \<and>
   (([0, 0, 0, 1, 0, 1, 0, 0] :: path) \<in> set [[0, 0, 0, 1, 0, 1, 0, 0]]) =
     ([0, 0, 0, 1, 0, 1, 0, 0] \<in> set (treeItems deep_tree) \<and>
      isExpanded collapsed_state [0, 0, 0, 1, 0, 0])"
proof -
  have a: "closest collapsed_state [0, 0, 0, 1, 0, 0] [Tag ''ul''] = Some [0, 0, 0, 1]"
    by code_simp
  have b: "previousElementSibling collapsed_state [0, 0, 0, 1] = Some [0, 0, 0, 0]"
    by code_simp
  have c: "\<not> isExpanded collapsed_state [0, 0, 0, 0]"
    by code_simp
  have a': "closest collapsed_state [0, 0, 0, 1, 0, 1, 0, 0] [Tag ''ul'']
              = Some [0, 0, 0, 1, 0, 1]"
    by code_simp
  have b': "previousElementSibling collapsed_state [0, 0, 0, 1, 0, 1] = Some [0, 0, 0, 1, 0, 0]"
    by code_simp
  have c': "isExpanded collapsed_state [0, 0, 0, 1, 0, 0]"
    by code_simp
  have d: "getVisibleTreeItems deep_tree collapsed_state = Normal [[0, 0, 0, 1, 0, 1, 0, 0]]"
    by code_simp
  note f = returned_iff_owner_expanded [OF a b d]
    and f' = returned_iff_owner_expanded [OF a' b' d]
  from a b c a' b' c' d f f' show ?thesis
    by (intro conjI)
qed

text \<open>
  The claim as stated reaches every collapsed ancestor. In the state above One is still
  expanded, and the query returns Deep, two levels below the collapsed Alpha.
\<close>

theorem visible_under_collapsed_ancestor:
  "fst (constructor (JSElement [0]) active_page) = Normal deep_tree \<and>
   \<not> isExpanded collapsed_state [0, 0, 0, 0] \<and>
   isVisible collapsed_state [0, 0, 0, 1, 0, 0] = Normal False \<and>
   getVisibleTreeItems deep_tree collapsed_state = Normal [[0, 0, 0, 1, 0, 1, 0, 0]]"
  by code_simp

section \<open>Reading the same tree in two states\<close>

lemma structure_cong:
  assumes "document s' = document s"
  shows "tag_of s' = tag_of s" "classList_contains s' = classList_contains s"
    "child_count s' = child_count s" "children s' = children s"
    "nextElementSibling s' = nextElementSibling s"
    "previousElementSibling s' = previousElementSibling s"
    "descendants s' = descendants s" "exists_at s' = exists_at s"
    "textContent s' = textContent s"
  using assms
  by (auto simp: fun_eq_iff tag_of_def classList_contains_def child_count_def children_def
      nextElementSibling_def previousElementSibling_def descendants_def exists_at_def
      textContent_def)

lemmas structure_setAttribute [simp] =
  structure_cong [OF document_setAttribute]

lemmas structure_focus [simp] = structure_cong [OF document_focus]

lemma last_of_type_cong:
  assumes "document s' = document s"
  shows "last_of_type s' = last_of_type s"
  by (simp add: fun_eq_iff last_of_type_def structure_cong [OF assms])

lemma previous_of_next:
  assumes "nextElementSibling s p = Some g"
  shows "previousElementSibling s g = Some p"
proof -
  from assms have p: "p \<noteq> []" and c: "Suc (last p) < child_count s (butlast p)"
    and g: "g = butlast p @ [Suc (last p)]"
    by (auto simp: nextElementSibling_def split: if_splits)
  from p c g show ?thesis
    by (simp add: previousElementSibling_def)
qed

text \<open>Selectors that do not read \<^verbatim>\<open>aria-expanded\<close> match the same elements.\<close>

fun reads_expansion :: "simple \<Rightarrow> bool" where
  "reads_expansion (AttrEq a v) = (a = ''aria-expanded'')"
| "reads_expansion x = False"

lemma matches_expansion_only:
  assumes "expansion_only s s'" and "\<not> list_ex reads_expansion c"
  shows "matches s' c p = matches s c p"
proof -
  from assms(1) have d: "document s' = document s"
    and a: "\<And>p a. a \<noteq> ''aria-expanded'' \<Longrightarrow> attrs s' p a = attrs s p a"
    by (simp_all add: expansion_only_def)
  have "matches_simple s' p x = matches_simple s p x" if "\<not> reads_expansion x" for x
    using that by (cases x) (simp_all add: structure_cong [OF d] last_of_type_cong [OF d]
        getAttribute_def a)
  with assms(2) show ?thesis
    by (induction c) (simp_all add: matches_def)
qed

lemma child_steps_expansion_only:
  assumes "expansion_only s s'" and "\<not> list_ex (list_ex reads_expansion) cs"
  shows "child_steps s' ps cs = child_steps s ps cs"
  using assms(2)
proof (induction cs arbitrary: ps)
  case Nil
  show ?case by simp
next
  case (Cons c cs)
  from assms(1) have d: "document s' = document s"
    by (simp add: expansion_only_def)
  from Cons.prems have "matches s' c = matches s c"
    by (simp add: fun_eq_iff matches_expansion_only [OF assms(1)])
  with Cons show ?case
    by (simp add: structure_cong [OF d])
qed

lemma focusable_expansion_only:
  assumes "expansion_only s s'"
  shows "focusable s' p = focusable s p"
proof -
  from assms have d: "document s' = document s"
    and a: "\<And>q b. b \<noteq> ''aria-expanded'' \<Longrightarrow> attrs s' q b = attrs s q b"
    by (simp_all add: expansion_only_def)
  have "summary_for_details s' p = summary_for_details s p"
    by (simp add: summary_for_details_def structure_cong [OF d])
  moreover have "editing_host s' p = editing_host s p"
    by (simp add: editing_host_def getAttribute_def a)
  ultimately show ?thesis
    by (simp add: focusable_def hasAttribute_def getAttribute_def a structure_cong [OF d])
qed

lemma onKeydown_ArrowRight:
  "onKeydown this (keydown p ''ArrowRight'') s =
     (if isExpandable s p
      then (if isExpanded s p then consumed (setFocusToNextTreeItem p s)
            else (Normal True, expandTreeItem p s))
      else (Normal True, s))"
  by (simp add: onKeydown_def keydown_def)

lemma onKeydown_ArrowLeft:
  "onKeydown this (keydown p ''ArrowLeft'') s =
     (if isExpanded s p then (Normal True, collapseTreeItem p s)
      else consumed (setFocusToPreviousTreeItem p s))"
  by (simp add: onKeydown_def keydown_def)

lemma scenario_B_steps:
  assumes collapsed: "getAttribute s item0 ''aria-expanded'' = Some ''false''"
    and grp: "nextElementSibling s item0 = Some g"
    and kids: "querySelectorAll_scope s g [[Tag ''li''], tree_item] = [child1, child2]"
    and plain: "\<not> isExpandable s child1"
    and first: "parentNode child1 = Some entry1" "previousElementSibling s entry1 = None"
      "parentNode entry1 = Some g"
    and foc: "focusable s item0" "focusable s child1"
  shows "onKeydown this (keydown item0 ''ArrowRight'') s
           = (Normal True, setAttribute item0 ''aria-expanded'' ''true'' s)"
    and "onKeydown this (keydown item0 ''ArrowRight'')
           (setAttribute item0 ''aria-expanded'' ''true'' s)
           = (Normal True, (setAttribute item0 ''aria-expanded'' ''true'' s)\<lparr>activeElement := Some child1\<rparr>)"
    and "onKeydown this (keydown child1 ''ArrowLeft'')
           ((setAttribute item0 ''aria-expanded'' ''true'' s)\<lparr>activeElement := Some child1\<rparr>)
           = (Normal True, (setAttribute item0 ''aria-expanded'' ''true'' s)\<lparr>activeElement := Some item0\<rparr>)"
proof -
  define s1 where "s1 = setAttribute item0 ''aria-expanded'' ''true'' s"
  define s2 where "s2 = s1\<lparr>activeElement := Some child1\<rparr>"
  have e1: "expansion_only s s1" by (simp add: s1_def)
  have ne: "child1 \<noteq> item0"
    using collapsed plain by (auto simp: isExpandable_def hasAttribute_def getAttribute_def)
  have x0: "isExpandable s item0" "\<not> isExpanded s item0"
    using collapsed by (simp_all add: isExpandable_def isExpanded_def hasAttribute_def getAttribute_def)
  have a: "onKeydown this (keydown item0 ''ArrowRight'') s = (Normal True, s1)"
    using x0 by (simp add: onKeydown_ArrowRight expandTreeItem_def s1_def)
  have x1: "isExpanded s1 item0" "isExpandable s1 item0"
    by (simp_all add: s1_def isExpanded_def isExpandable_def getAttribute_def hasAttribute_def attrs_setAttribute)
  have k1: "querySelectorAll_scope s1 g [[Tag ''li''], tree_item] = [child1, child2]"
    using kids child_steps_expansion_only [OF e1, of "[[Tag ''li''], tree_item]" "[g]"]
    by (simp add: querySelectorAll_scope_def tree_item_def)
  have n1: "nextElementSibling s1 item0 = Some g"
    using grp by (simp add: s1_def)
  have f1: "focusable s1 child1"
    using foc(2) by (simp add: focusable_expansion_only [OF e1])
  have "setFocusToNextTreeItem item0 s1 = (Normal (), s2)"
    by (simp add: setFocusToNextTreeItem_def x1 n1 k1 setFocusToTreeItem_def focus_def f1 s2_def)
  then have b: "onKeydown this (keydown item0 ''ArrowRight'') s1 = (Normal True, s2)"
    by (simp add: onKeydown_ArrowRight x1 consumed_def)
  have e2: "expansion_only s s2"
    by (simp add: s2_def s1_def expansion_only_def attrs_setAttribute)
  have x2: "\<not> isExpanded s2 child1"
    using plain ne by (simp add: s2_def s1_def isExpanded_def isExpandable_def getAttribute_def hasAttribute_def attrs_setAttribute)
  have d2: "document s2 = document s" by (simp add: s2_def s1_def)
  have p2: "previousElementSibling s2 entry1 = None" "previousElementSibling s2 g = Some item0"
    using first(2) previous_of_next [OF grp] by (simp_all add: structure_cong [OF d2])
  have f2: "focusable s2 item0"
    using foc(1) by (simp add: focusable_expansion_only [OF e2])
  have "setFocusToPreviousTreeItem child1 s2 = (Normal (), s2\<lparr>activeElement := Some item0\<rparr>)"
    by (simp add: setFocusToPreviousTreeItem_def first(1,3) p2 setFocusToTreeItem_def focus_def f2)
  moreover have "s2\<lparr>activeElement := Some item0\<rparr> = s1\<lparr>activeElement := Some item0\<rparr>"
    by (simp add: s2_def)
  ultimately have c: "onKeydown this (keydown child1 ''ArrowLeft'') s2 = (Normal True, s1\<lparr>activeElement := Some item0\<rparr>)"
    by (simp add: onKeydown_ArrowLeft x2 consumed_def)
  from a show "onKeydown this (keydown item0 ''ArrowRight'') s
           = (Normal True, setAttribute item0 ''aria-expanded'' ''true'' s)"
    by (simp add: s1_def)
  from b show "onKeydown this (keydown item0 ''ArrowRight'')
           (setAttribute item0 ''aria-expanded'' ''true'' s)
           = (Normal True, (setAttribute item0 ''aria-expanded'' ''true'' s)\<lparr>activeElement := Some child1\<rparr>)"
    by (simp add: s1_def s2_def)
  from c show "onKeydown this (keydown child1 ''ArrowLeft'')
           ((setAttribute item0 ''aria-expanded'' ''true'' s)\<lparr>activeElement := Some child1\<rparr>)
           = (Normal True, (setAttribute item0 ''aria-expanded'' ''true'' s)\<lparr>activeElement := Some item0\<rparr>)"
    by (simp add: s1_def s2_def)
qed

section \<open>Scenario B\<close>

text \<open>Alpha owns a Group with two children, One and Two; Beta follows.\<close>

definition group_page :: state where
  "group_page =
     markup (page [branch [] ''Alpha'' [leaf [] ''One'', leaf [] ''Two''], leaf [] ''Beta''])"

definition group_tree :: treeview where
  "group_tree =
     \<lparr>treeNode = Some [0, 0],
      treeItems = [[0, 0, 0, 0], [0, 0, 0, 1, 0, 0], [0, 0, 0, 1, 1, 0], [0, 0, 1, 0]],
      subMenus = [[0, 0, 0, 1]]\<rparr>"

definition group_state :: state where
  "group_state = snd (constructor (JSElement [0]) group_page)"

text \<open>
  Claim C7. Item 0 owns a collapsed Group (the list after it) whose Items are two
  children, the first of them in the first entry of the list and not expandable; the
  Items can take focus. Then \<^verbatim>\<open>ArrowRight\<close> on Item 0 sets its \<^verbatim>\<open>aria-expanded\<close> to
  \<^verbatim>\<open>"true"\<close> and leaves the focus where it was; a second \<^verbatim>\<open>ArrowRight\<close> on Item 0 moves the
  focus to the first child; \<^verbatim>\<open>ArrowLeft\<close> on that child moves the focus back to Item 0. No
  handler throws, and each consumes its event.
\<close>

theorem scenario_B:
  assumes "getAttribute s item0 ''aria-expanded'' = Some ''false''"
    and "nextElementSibling s item0 = Some g"
    and "querySelectorAll_scope s g [[Tag ''li''], tree_item] = [child1, child2]"
    and "\<not> isExpandable s child1"
    and "parentNode child1 = Some entry1"
    and "previousElementSibling s entry1 = None"
    and "parentNode entry1 = Some g"
    and "focusable s item0"
    and "focusable s child1"
  shows "let r1 = onKeydown this (keydown item0 ''ArrowRight'') s;
             r2 = onKeydown this (keydown item0 ''ArrowRight'') (snd r1);
             r3 = onKeydown this (keydown child1 ''ArrowLeft'') (snd r2)
         in fst r1 = Normal True \<and>
            getAttribute (snd r1) item0 ''aria-expanded'' = Some ''true'' \<and>
            activeElement (snd r1) = activeElement s \<and>
            fst r2 = Normal True \<and> activeElement (snd r2) = Some child1 \<and>
            fst r3 = Normal True \<and> activeElement (snd r3) = Some item0"
  using scenario_B_steps [OF assms, of this]
  by (simp add: Let_def getAttribute_def attrs_setAttribute)

theorem scenario_B_witness:
  "fst (constructor (JSElement [0]) group_page) = Normal group_tree \<and>
   getAttribute group_state [0, 0, 0, 0] ''aria-expanded'' = Some ''false'' \<and>
   nextElementSibling group_state [0, 0, 0, 0] = Some [0, 0, 0, 1] \<and>
   querySelectorAll_scope group_state [0, 0, 0, 1] [[Tag ''li''], tree_item]
     = [[0, 0, 0, 1, 0, 0], [0, 0, 0, 1, 1, 0]] \<and>
   \<not> isExpandable group_state [0, 0, 0, 1, 0, 0] \<and>
   parentNode [0, 0, 0, 1, 0, 0] = Some [0, 0, 0, 1, 0] \<and>
   previousElementSibling group_state [0, 0, 0, 1, 0] = None \<and>
   parentNode [0, 0, 0, 1, 0] = Some [0, 0, 0, 1] \<and>
   focusable group_state [0, 0, 0, 0] \<and>
   focusable group_state [0, 0, 0, 1, 0, 0] \<and>
   (let r1 = onKeydown group_tree (keydown [0, 0, 0, 0] ''ArrowRight'') group_state;
        r2 = onKeydown group_tree (keydown [0, 0, 0, 0] ''ArrowRight'') (snd r1);
        r3 = onKeydown group_tree (keydown [0, 0, 0, 1, 0, 0] ''ArrowLeft'') (snd r2)
    in fst r1 = Normal True \<and>
       getAttribute (snd r1) [0, 0, 0, 0] ''aria-expanded'' = Some ''true'' \<and>
       activeElement (snd r1) = activeElement group_state \<and>
       fst r2 = Normal True \<and> activeElement (snd r2) = Some [0, 0, 0, 1, 0, 0] \<and>
       fst r3 = Normal True \<and> activeElement (snd r3) = Some [0, 0, 0, 0])"
proof -
  have c: "fst (constructor (JSElement [0]) group_page) = Normal group_tree"
    by code_simp
  have h1: "getAttribute group_state [0, 0, 0, 0] ''aria-expanded'' = Some ''false''"
    by code_simp
  have h2: "nextElementSibling group_state [0, 0, 0, 0] = Some [0, 0, 0, 1]"
    by code_simp
  have h3: "querySelectorAll_scope group_state [0, 0, 0, 1] [[Tag ''li''], tree_item]
              = [[0, 0, 0, 1, 0, 0], [0, 0, 0, 1, 1, 0]]"
    by code_simp
  have h4: "\<not> isExpandable group_state [0, 0, 0, 1, 0, 0]"
    by code_simp
  have h5: "parentNode [0, 0, 0, 1, 0, 0] = Some [0, 0, 0, 1, 0]"
    by code_simp
  have h6: "previousElementSibling group_state [0, 0, 0, 1, 0] = None"
    by code_simp
  have h7: "parentNode [0, 0, 0, 1, 0] = Some [0, 0, 0, 1]"
    by code_simp
  have h8: "focusable group_state [0, 0, 0, 0]"
    by code_simp
  have h9: "focusable group_state [0, 0, 0, 1, 0, 0]"
    by code_simp
  note r = scenario_B [OF h1 h2 h3 h4 h5 h6 h7 h8 h9, of group_tree]
  from c h1 h2 h3 h4 h5 h6 h7 h8 h9 r show ?thesis by (intro conjI)
qed

section \<open>Document order\<close>

text \<open>
  The descendants of an element are the existing paths that extend its path, and
  \<^verbatim>\<open>querySelectorAll\<close> lists them in document order: the lexicographic order of paths, in
  which an element stands before its descendants and before its later siblings.
\<close>

lemma below_iff_aux:
  "(\<forall>q. q \<in> set (below n) \<longleftrightarrow> q \<noteq> [] \<and> node_at n q \<noteq> None)"
  "(\<forall>q. q \<in> set (below_list i ns) \<longleftrightarrow>
        (\<exists>j r. q = (i + j) # r \<and> j < length ns \<and> node_at (ns ! j) r \<noteq> None))"
proof (induction n and i ns rule: below_below_list.induct)
  case (1 t c x ns)
  show ?case
  proof
    fix q
    show "q \<in> set (below (Element t c x ns)) \<longleftrightarrow>
          q \<noteq> [] \<and> node_at (Element t c x ns) q \<noteq> None"
      using 1 by (cases q) auto
  qed
next
  case (2 i)
  show ?case by simp
next
  case (3 i n ns)
  show ?case
  proof
    fix q
    have "q \<in> set (below_list i (n # ns)) \<longleftrightarrow>
          q = [i] \<or> (\<exists>r. q = i # r \<and> r \<noteq> [] \<and> node_at n r \<noteq> None) \<or>
          (\<exists>j r. q = (Suc i + j) # r \<and> j < length ns \<and> node_at (ns ! j) r \<noteq> None)"
      using 3 by auto
    also have "\<dots> \<longleftrightarrow>
          (\<exists>j r. q = (i + j) # r \<and> j < length (n # ns) \<and> node_at ((n # ns) ! j) r \<noteq> None)"
    proof
      assume "q = [i] \<or> (\<exists>r. q = i # r \<and> r \<noteq> [] \<and> node_at n r \<noteq> None) \<or>
          (\<exists>j r. q = (Suc i + j) # r \<and> j < length ns \<and> node_at (ns ! j) r \<noteq> None)"
      then show "\<exists>j r. q = (i + j) # r \<and> j < length (n # ns) \<and> node_at ((n # ns) ! j) r \<noteq> None"
      proof (elim disjE exE conjE)
        assume "q = [i]"
        then have "q = (i + 0) # [] \<and> 0 < length (n # ns) \<and> node_at ((n # ns) ! 0) [] \<noteq> None"
          by simp
        then show ?thesis by blast
      next
        fix r assume "q = i # r" "node_at n r \<noteq> None"
        then have "q = (i + 0) # r \<and> 0 < length (n # ns) \<and> node_at ((n # ns) ! 0) r \<noteq> None"
          by simp
        then show ?thesis by blast
      next
        fix j r assume "q = (Suc i + j) # r" "j < length ns" "node_at (ns ! j) r \<noteq> None"
        then have "q = (i + Suc j) # r \<and> Suc j < length (n # ns) \<and>
                   node_at ((n # ns) ! Suc j) r \<noteq> None"
          by simp
        then show ?thesis by blast
      qed
    next
      assume "\<exists>j r. q = (i + j) # r \<and> j < length (n # ns) \<and> node_at ((n # ns) ! j) r \<noteq> None"
      then obtain j r where jr: "q = (i + j) # r" "j < length (n # ns)"
        "node_at ((n # ns) ! j) r \<noteq> None" by blast
      show "q = [i] \<or> (\<exists>r. q = i # r \<and> r \<noteq> [] \<and> node_at n r \<noteq> None) \<or>
          (\<exists>j r. q = (Suc i + j) # r \<and> j < length ns \<and> node_at (ns ! j) r \<noteq> None)"
      proof (cases j)
        case 0
        with jr show ?thesis by (cases r) auto
      next
        case (Suc k)
        with jr have "q = (Suc i + k) # r \<and> k < length ns \<and> node_at (ns ! k) r \<noteq> None"
          by simp
        then show ?thesis by blast
      qed
    qed
    finally show "q \<in> set (below_list i (n # ns)) \<longleftrightarrow>
          (\<exists>j r. q = (i + j) # r \<and> j < length (n # ns) \<and> node_at ((n # ns) ! j) r \<noteq> None)" .
  qed
qed

lemma below_iff: "q \<in> set (below n) \<longleftrightarrow> q \<noteq> [] \<and> node_at n q \<noteq> None"
  using below_iff_aux(1) by blast

lemma below_list_head:
  "q \<in> set (below_list i ns) \<Longrightarrow> \<exists>j r. q = j # r \<and> i \<le> j"
  using below_iff_aux(2) [of i ns] by auto

lemma sorted_below_aux:
  "sorted_wrt (<) (below n)"
  "sorted_wrt (<) (below_list i ns)"
proof (induction n and i ns rule: below_below_list.induct)
  case (1 t c x ns)
  then show ?case by simp
next
  case (2 i)
  show ?case by simp
next
  case (3 i n ns)
  have a: "sorted_wrt (<) (map ((#) i) (below n))"
    using 3(1) by (simp add: sorted_wrt_map)
  have b: "\<forall>x \<in> set (map ((#) i) (below n)). \<forall>y \<in> set (below_list (Suc i) ns). x < y"
    using below_list_head [of _ "Suc i" ns] by fastforce
  have c: "\<forall>y \<in> set (map ((#) i) (below n) @ below_list (Suc i) ns). [i] < y"
    using below_list_head [of _ "Suc i" ns] below_iff [of _ n] by (fastforce simp: neq_Nil_conv)
  from a b c 3(2) show ?case
    by (simp add: sorted_wrt_append)
qed

lemma append_less_iff: "p @ x < p @ (y :: nat list) \<longleftrightarrow> x < y"
  by (induction p) simp_all

lemma sorted_descendants: "sorted_wrt (<) (descendants s p)"
  by (simp add: descendants_def sorted_wrt_map append_less_iff sorted_below_aux(1)
      split: option.splits)

lemma sorted_querySelectorAll: "sorted_wrt (<) (querySelectorAll s p c)"
  by (simp add: querySelectorAll_def sorted_wrt_filter sorted_descendants)

lemma node_at_append:
  "node_at n (p @ q) = (case node_at n p of None \<Rightarrow> None | Some m \<Rightarrow> node_at m q)"
  by (induction p arbitrary: n) simp_all

lemma descendants_iff:
  "q \<in> set (descendants s p) \<longleftrightarrow> (\<exists>r. q = p @ r \<and> r \<noteq> [] \<and> exists_at s q)"
proof (cases "node_at (document s) p")
  case None
  then show ?thesis
    by (auto simp: descendants_def exists_at_def node_at_append)
next
  case (Some n)
  then show ?thesis
    by (auto simp: descendants_def exists_at_def below_iff node_at_append)
qed

section \<open>Set-up: what each loop writes\<close>



text \<open>What \<^verbatim>\<open>updateActiveTree\<close> can change: it turns present \<^verbatim>\<open>aria-expanded\<close> attributes to \<^verbatim>\<open>"true"\<close>.\<close>

definition only_expands :: "state \<Rightarrow> state \<Rightarrow> bool" where
  "only_expands s s' =
     (expansion_only s s' \<and> activeElement s' = activeElement s \<and>
      (\<forall>q. attrs s' q ''aria-expanded'' = attrs s q ''aria-expanded'' \<or>
           (attrs s q ''aria-expanded'' \<noteq> None \<and>
            attrs s' q ''aria-expanded'' = Some ''true'')))"

lemma only_expands_refl [simp]: "only_expands s s"
  by (simp add: only_expands_def)

lemma only_expands_cases:
  assumes "only_expands s s'"
  shows "attrs s' q ''aria-expanded'' = attrs s q ''aria-expanded'' \<or>
         (attrs s q ''aria-expanded'' \<noteq> None \<and> attrs s' q ''aria-expanded'' = Some ''true'')"
  using assms by (simp add: only_expands_def)

lemma only_expands_trans:
  assumes "only_expands s s'" and "only_expands s' s''"
  shows "only_expands s s''"
  unfolding only_expands_def
proof (intro conjI allI)
  from assms show "expansion_only s s''"
    by (auto simp: only_expands_def intro: expansion_only_trans)
  from assms show "activeElement s'' = activeElement s"
    by (simp add: only_expands_def)
  fix q
  from only_expands_cases [OF assms(1), of q] only_expands_cases [OF assms(2), of q]
  show "attrs s'' q ''aria-expanded'' = attrs s q ''aria-expanded'' \<or>
        (attrs s q ''aria-expanded'' \<noteq> None \<and> attrs s'' q ''aria-expanded'' = Some ''true'')"
    by (cases "attrs s q ''aria-expanded''") auto
qed

lemma only_expands_set:
  "hasAttribute s l ''aria-expanded'' \<Longrightarrow>
   only_expands s (setAttribute l ''aria-expanded'' ''true'' s)"
  by (simp add: only_expands_def hasAttribute_def attrs_setAttribute)

text \<open>The body of the loop of \<^verbatim>\<open>updateActiveTree\<close>.\<close>

definition expand_owner :: "path \<Rightarrow> state \<Rightarrow> state" where
  "expand_owner current s =
     (if classList_contains s current ''menu-item''
      then (case querySelector s current [Tag ''a''] of
              None \<Rightarrow> s
            | Some parentLink \<Rightarrow>
                if hasAttribute s parentLink ''aria-expanded''
                then setAttribute parentLink ''aria-expanded'' ''true'' s else s)
      else s)"

lemma updateActiveTree_from_Some:
  "updateActiveTree_from (Some c) s = updateActiveTree_from (parentElement c) (expand_owner c s)"
  by (simp add: expand_owner_def)

lemma only_expands_expand_owner: "only_expands s (expand_owner c s)"
  by (simp add: expand_owner_def only_expands_set split: option.splits)

lemma only_expands_updateActiveTree_from: "only_expands s (updateActiveTree_from c s)"
proof (induction c s rule: updateActiveTree_from.induct)
  case (1 s)
  show ?case by simp
next
  case (2 current s)
  have "only_expands (expand_owner current s)
          (updateActiveTree_from (parentElement current) (expand_owner current s))"
    using 2 by (simp add: expand_owner_def)
  with only_expands_expand_owner [of s current] show ?case
    by (simp only: updateActiveTree_from_Some only_expands_trans)
qed

lemma only_expands_attrs:
  "only_expands s s' \<Longrightarrow> a \<noteq> ''aria-expanded'' \<Longrightarrow> attrs s' q a = attrs s q a"
  by (simp add: only_expands_def expansion_only_def)

lemma only_expands_document: "only_expands s s' \<Longrightarrow> document s' = document s"
  by (simp add: only_expands_def expansion_only_def)

lemma only_expands_has:
  assumes "only_expands s s'"
  shows "hasAttribute s' q ''aria-expanded'' = hasAttribute s q ''aria-expanded''"
  using only_expands_cases [OF assms, of q]
  by (cases "attrs s q ''aria-expanded''") (auto simp: hasAttribute_def)






lemma only_expands_updateActiveTree: "only_expands s (updateActiveTree x s)"
  by (simp add: updateActiveTree_def only_expands_updateActiveTree_from)

text \<open>The callback of \<^verbatim>\<open>adjustLinkAttributes\<close>, with its tests read in the state it starts from.\<close>

definition marked :: "path \<Rightarrow> state \<Rightarrow> state" where
  "marked item s =
     setAttribute item ''tabindex'' ''-1'' (setAttribute item ''aria-role'' ''tree-item'' s)"

definition activated :: "path \<Rightarrow> state \<Rightarrow> state" where
  "activated item s =
     (if classList_contains s item ''is-active''
      then updateActiveTree item
             (setAttribute item ''tabindex'' ''0''
               (setAttribute item ''aria-current'' ''page'' (marked item s)))
      else marked item s)"

lemma document_marked [simp]: "document (marked i s) = document s"
  by (simp add: marked_def)

lemma document_activated [simp]: "document (activated i s) = document s"
  by (simp add: activated_def only_expands_document [OF only_expands_updateActiveTree])

lemma adjustLink_unfold:
  "adjustLink i s =
     (if nextElementSibling s i \<noteq> None
      then setAttribute i ''aria-expanded'' ''false''
             (setAttribute i ''aria-owns'' (cleanForId (textContent s i)) (activated i s))
      else activated i s)"
proof -
  have a: "(if classList_contains (marked i s) i ''is-active''
            then updateActiveTree i
                   (setAttribute i ''tabindex'' ''0''
                     (setAttribute i ''aria-current'' ''page'' (marked i s)))
            else marked i s) = activated i s"
    by (simp add: activated_def structure_cong [OF document_marked])
  have b: "nextElementSibling (activated i s) i = nextElementSibling s i"
    by (simp add: structure_cong [OF document_activated])
  show ?thesis
    unfolding adjustLink_def Let_def marked_def [symmetric] a b by simp
qed

lemma document_adjustLink [simp]: "document (adjustLink i s) = document s"
  by (simp add: adjustLink_unfold)

lemma attrs_marked:
  "attrs (marked i s) q a =
     (if q = i \<and> a = ''tabindex'' then Some ''-1''
      else if q = i \<and> a = ''aria-role'' then Some ''tree-item''
      else attrs s q a)"
  by (simp add: marked_def attrs_setAttribute)

lemma attrs_activated_other:
  assumes "a \<noteq> ''aria-expanded''"
  shows "attrs (activated i s) q a =
     (if q = i \<and> a = ''tabindex''
        then Some (if classList_contains s i ''is-active'' then ''0'' else ''-1'')
      else if q = i \<and> a = ''aria-role'' then Some ''tree-item''
      else if q = i \<and> a = ''aria-current'' \<and> classList_contains s i ''is-active''
        then Some ''page''
      else attrs s q a)"
proof (cases "classList_contains s i ''is-active''")
  case True
  then have "activated i s = updateActiveTree i
             (setAttribute i ''tabindex'' ''0''
               (setAttribute i ''aria-current'' ''page'' (marked i s)))"
    by (simp add: activated_def)
  then have "attrs (activated i s) q a = attrs (setAttribute i ''tabindex'' ''0''
               (setAttribute i ''aria-current'' ''page'' (marked i s))) q a"
    using only_expands_attrs [OF only_expands_updateActiveTree assms] by simp
  with True show ?thesis
    by (simp add: attrs_setAttribute attrs_marked)
next
  case False
  then show ?thesis
    by (simp add: activated_def attrs_marked)
qed

lemma has_activated:
  "hasAttribute (activated i s) q ''aria-expanded'' = hasAttribute s q ''aria-expanded''"
proof (cases "classList_contains s i ''is-active''")
  case True
  then have "activated i s = updateActiveTree i
             (setAttribute i ''tabindex'' ''0''
               (setAttribute i ''aria-current'' ''page'' (marked i s)))"
    by (simp add: activated_def)
  then have "hasAttribute (activated i s) q ''aria-expanded'' =
             hasAttribute (setAttribute i ''tabindex'' ''0''
               (setAttribute i ''aria-current'' ''page'' (marked i s))) q ''aria-expanded''"
    using only_expands_has [OF only_expands_updateActiveTree] by simp
  then show ?thesis
    by (simp add: hasAttribute_def attrs_setAttribute attrs_marked)
next
  case False
  then show ?thesis
    by (simp add: activated_def hasAttribute_def attrs_marked)
qed


lemma attrs_adjustLink_other:
  assumes "a \<noteq> ''aria-expanded''"
  shows "attrs (adjustLink i s) q a =
     (if q = i \<and> a = ''aria-owns'' \<and> nextElementSibling s i \<noteq> None
        then Some (cleanForId (textContent s i))
      else if q = i \<and> a = ''tabindex''
        then Some (if classList_contains s i ''is-active'' then ''0'' else ''-1'')
      else if q = i \<and> a = ''aria-role'' then Some ''tree-item''
      else if q = i \<and> a = ''aria-current'' \<and> classList_contains s i ''is-active''
        then Some ''page''
      else attrs s q a)"
  using assms
  by (cases "nextElementSibling s i")
     (simp_all add: adjustLink_unfold attrs_setAttribute attrs_activated_other)

lemma has_adjustLink:
  "hasAttribute (adjustLink i s) q ''aria-expanded'' \<longleftrightarrow>
     hasAttribute s q ''aria-expanded'' \<or> (q = i \<and> nextElementSibling s i \<noteq> None)"
  using has_activated [of i s q]
  by (auto simp: adjustLink_unfold hasAttribute_def attrs_setAttribute)




subsection \<open>The loop over the Items\<close>

lemma document_fold_adjustLink [simp]: "document (fold adjustLink xs s) = document s"
  by (induction xs arbitrary: s) simp_all


lemma role_fold_adjustLink:
  "attrs (fold adjustLink xs s) q ''aria-role'' =
     (if q \<in> set xs then Some ''tree-item'' else attrs s q ''aria-role'')"
proof (induction xs arbitrary: s)
  case Nil
  show ?case by simp
next
  case (Cons x xs)
  from Cons [of "adjustLink x s"] show ?case
    by (simp add: attrs_adjustLink_other)
qed

lemma has_fold_adjustLink:
  "hasAttribute (fold adjustLink xs s) q ''aria-expanded'' \<longleftrightarrow>
     hasAttribute s q ''aria-expanded'' \<or> (q \<in> set xs \<and> nextElementSibling s q \<noteq> None)"
proof (induction xs arbitrary: s)
  case Nil
  show ?case by simp
next
  case (Cons x xs)
  have "nextElementSibling (adjustLink x s) = nextElementSibling s"
    by (rule structure_cong [OF document_adjustLink])
  with Cons [of "adjustLink x s"] show ?case
    by (auto simp: has_adjustLink)
qed




subsection \<open>The later loops\<close>

text \<open>
  \<^verbatim>\<open>adjustSubMenuAttributes\<close> writes \<^verbatim>\<open>aria-role\<close> and \<^verbatim>\<open>id\<close>; \<^verbatim>\<open>attachTriggers\<close> appends
  buttons to Items. \<open>grows I s s'\<close>: every element of \<open>s\<close> is still there in \<open>s'\<close> with its
  tag, its classes and its other attributes, and with as many children unless it is in
  \<open>I\<close>.
\<close>

definition grows :: "path set \<Rightarrow> state \<Rightarrow> state \<Rightarrow> bool" where
  "grows I s s' =
     (\<forall>q. exists_at s q \<longrightarrow>
        exists_at s' q \<and> tag_of s' q = tag_of s q \<and>
        classList_contains s' q = classList_contains s q \<and>
        (q \<notin> I \<longrightarrow> child_count s' q = child_count s q) \<and>
        (\<forall>a. a \<noteq> ''id'' \<and> a \<noteq> ''aria-role'' \<longrightarrow> attrs s' q a = attrs s q a))"

lemma grows_refl [simp]: "grows I s s"
  by (simp add: grows_def)

lemma grows_trans:
  assumes "grows I s s'" and "grows I s' s''"
  shows "grows I s s''"
  unfolding grows_def
proof (intro allI impI)
  fix q assume q: "exists_at s q"
  with assms(1) have
    a: "exists_at s' q" "tag_of s' q = tag_of s q"
       "classList_contains s' q = classList_contains s q"
       "q \<notin> I \<longrightarrow> child_count s' q = child_count s q"
       "\<forall>a. a \<noteq> ''id'' \<and> a \<noteq> ''aria-role'' \<longrightarrow> attrs s' q a = attrs s q a"
    by (simp_all add: grows_def)
  from assms(2) a(1) have
    b: "exists_at s'' q" "tag_of s'' q = tag_of s' q"
       "classList_contains s'' q = classList_contains s' q"
       "q \<notin> I \<longrightarrow> child_count s'' q = child_count s' q"
       "\<forall>a. a \<noteq> ''id'' \<and> a \<noteq> ''aria-role'' \<longrightarrow> attrs s'' q a = attrs s' q a"
    by (simp_all add: grows_def)
  from a b show
    "exists_at s'' q \<and> tag_of s'' q = tag_of s q \<and>
     classList_contains s'' q = classList_contains s q \<and>
     (q \<notin> I \<longrightarrow> child_count s'' q = child_count s q) \<and>
     (\<forall>a. a \<noteq> ''id'' \<and> a \<noteq> ''aria-role'' \<longrightarrow> attrs s'' q a = attrs s q a)"
    by simp
qed

lemma grows_same_document:
  assumes "document s' = document s"
    and "\<And>q a. a \<noteq> ''id'' \<Longrightarrow> a \<noteq> ''aria-role'' \<Longrightarrow> attrs s' q a = attrs s q a"
  shows "grows I s s'"
  using assms(2) by (simp add: grows_def structure_cong [OF assms(1)])

lemma grows_adjustSubMenu: "grows I s (snd (adjustSubMenu u s))"
proof (cases "previousElementSibling s u")
  case None
  then show ?thesis by (simp add: adjustSubMenu_def)
next
  case (Some l)
  then show ?thesis
    by (auto simp: adjustSubMenu_def attrs_setAttribute intro!: grows_same_document)
qed

lemma node_at_append_at:
  assumes "node_at d q = Some n"
  shows "\<exists>n'. node_at (append_at d p m) q = Some n' \<and> tagName n' = tagName n \<and>
           classList n' = classList n \<and>
           length (childNodes n') =
             (if q = p then Suc (length (childNodes n)) else length (childNodes n))"
  using assms
proof (induction q arbitrary: d p)
  case Nil
  obtain t c x ns where d: "d = Element t c x ns" by (cases d)
  with Nil show ?case
    by (cases p) auto
next
  case (Cons i q)
  obtain t c x ns where d: "d = Element t c x ns" by (cases d)
  from Cons.prems d have i: "i < length ns" and n: "node_at (ns ! i) q = Some n"
    by (auto split: if_splits)
  show ?case
  proof (cases p)
    case Nil
    with d i n show ?thesis
      by (simp add: nth_append)
  next
    case (Cons j p')
    show ?thesis
    proof (cases "j = i")
      case True
      from Cons.IH [OF n, of p'] obtain n' where
        "node_at (append_at (ns ! i) p' m) q = Some n'" "tagName n' = tagName n"
        "classList n' = classList n"
        "length (childNodes n') =
           (if q = p' then Suc (length (childNodes n)) else length (childNodes n))"
        by blast
      with d i True Cons show ?thesis
        by simp
    next
      case False
      with d i n Cons show ?thesis
        by auto
    qed
  qed
qed

lemma fresh_child: "\<not> exists_at s (i @ [child_count s i])"
  by (simp add: exists_at_def child_count_def node_at_append split: option.splits)

lemma grows_appendChild:
  assumes "i \<in> I"
  shows "grows I s (appendChild i m as s)"
  unfolding grows_def
proof (intro allI impI)
  fix q assume "exists_at s q"
  then obtain n where n: "node_at (document s) q = Some n"
    by (auto simp: exists_at_def)
  from node_at_append_at [OF n, of i m] obtain n' where
    n': "node_at (append_at (document s) i m) q = Some n'" "tagName n' = tagName n"
    "classList n' = classList n"
    "length (childNodes n') =
       (if q = i then Suc (length (childNodes n)) else length (childNodes n))"
    by blast
  from \<open>exists_at s q\<close> fresh_child [of s i] have ne: "q \<noteq> i @ [child_count s i]"
    by auto
  from n n' ne assms show
    "exists_at (appendChild i m as s) q \<and>
     tag_of (appendChild i m as s) q = tag_of s q \<and>
     classList_contains (appendChild i m as s) q = classList_contains s q \<and>
     (q \<notin> I \<longrightarrow> child_count (appendChild i m as s) q = child_count s q) \<and>
     (\<forall>a. a \<noteq> ''id'' \<and> a \<noteq> ''aria-role'' \<longrightarrow>
          attrs (appendChild i m as s) q a = attrs s q a)"
    by (auto simp: appendChild_def exists_at_def tag_of_def classList_contains_def
        child_count_def fun_eq_iff)
qed

lemma grows_listeners:
  "grows I s (s\<lparr>clickListeners := x\<rparr>)" "grows I s (s\<lparr>keydownListeners := y\<rparr>)"
  by (simp_all add: grows_same_document)

lemma grows_attachTrigger:
  assumes "i \<in> I"
  shows "grows I s (snd (attachTrigger i s))"
proof (cases "getGroupNode s i")
  case (Throw e)
  then show ?thesis by (simp add: attachTrigger_def)
next
  case (Normal g)
  show ?thesis
  proof (cases g)
    case None
    with Normal show ?thesis by (simp add: attachTrigger_def)
  next
    case (Some groupNode)
    with Normal have
      "snd (attachTrigger i s) =
         (appendChild i triggerButton [''tabindex'' \<mapsto> ''-1''] s)
           \<lparr>clickListeners :=
              clickListeners (appendChild i triggerButton [''tabindex'' \<mapsto> ''-1''] s)
                @ [i @ [child_count s i]]\<rparr>"
      by (simp add: attachTrigger_def Let_def)
    with grows_trans [OF grows_appendChild [OF assms] grows_listeners(1)]
    show ?thesis by simp
  qed
qed

lemma grows_forEach:
  assumes "\<And>x t. x \<in> set xs \<Longrightarrow> grows I t (snd (f x t))"
  shows "grows I s (snd (forEach f xs s))"
  using assms
proof (induction xs arbitrary: s)
  case Nil
  show ?case by simp
next
  case (Cons x xs)
  have a: "grows I s (snd (f x s))"
    by (rule Cons.prems) simp
  show ?case
  proof (cases "f x s")
    case (Pair r t)
    show ?thesis
    proof (cases r)
      case (Throw e)
      with Pair a show ?thesis by simp
    next
      case (Normal u)
      have "grows I t (snd (forEach f xs t))"
        by (rule Cons.IH) (simp add: Cons.prems)
      with Pair a Normal show ?thesis
        by (auto intro: grows_trans)
    qed
  qed
qed

text \<open>A construction that completes: the fields of the instance and the state it leaves.\<close>

lemma constructor_Normal:
  assumes "constructor (JSElement c) s = (Normal this, s')"
  obtains tn where "querySelector_scope s c [[Tag ''ul'']] = Some tn"
    and "treeNode this = Some tn"
    and "treeItems this = querySelectorAll s tn [Class ''menu__link'']"
    and "subMenus this = querySelectorAll s tn [Tag ''ul'', NotClass ''menu--level-1'']"
    and "grows (set (treeItems this))
           (adjustLinkAttributes this (setAttribute tn ''role'' ''tree'' s)) s'"
proof (cases "querySelector_scope s c [[Tag ''ul'']]")
  case None
  with assms show ?thesis by (simp add: constructor_def)
next
  case (Some tn)
  define this' where "this' = \<lparr>treeNode = Some tn,
      treeItems = querySelectorAll s tn [Class ''menu__link''],
      subMenus = querySelectorAll s tn [Tag ''ul'', NotClass ''menu--level-1'']\<rparr>"
  define s2 where "s2 = adjustLinkAttributes this' (setAttribute tn ''role'' ''tree'' s)"
  from assms Some have i: "initializeTreeViews this' s = (Normal (), s')" and t: "this = this'"
    by (auto simp: constructor_def Let_def this'_def split: prod.splits completion.splits)
  obtain r3 s3 where s3: "adjustSubMenuAttributes this' s2 = (r3, s3)" by fastforce
  obtain r4 s4 where s4: "attachTriggers this' s3 = (r4, s4)" by fastforce
  have tn': "treeNode this' = Some tn" by (simp add: this'_def)
  from i s3 s4 have s': "s' = s4\<lparr>keydownListeners := keydownListeners s4 @ treeItems this'\<rparr>"
    by (auto simp: initializeTreeViews_def tn' Let_def s2_def split: completion.splits)
  have g3: "grows (set (treeItems this')) s2 s3"
    using grows_forEach [of "subMenus this'" "set (treeItems this')" adjustSubMenu s2] s3
    by (simp add: adjustSubMenuAttributes_def grows_adjustSubMenu)
  have g4: "grows (set (treeItems this')) s3 s4"
    using grows_forEach [of "treeItems this'" "set (treeItems this')" attachTrigger s3] s4
    by (simp add: attachTriggers_def grows_attachTrigger)
  have "grows (set (treeItems this')) s2 s'"
    unfolding s'
    by (rule grows_trans [OF grows_trans [OF g3 g4] grows_listeners(2)])
  with that [of tn] Some t show ?thesis
    by (simp add: this'_def s2_def)
qed

section \<open>The structural contract\<close>

text \<open>
  What the class expects of the markup, stated at each Item: the Item is a link, the
  first child of an \<^verbatim>\<open>li.menu-item\<close> entry of a list; what follows it in the entry, if
  anything, is a nested list without the root's level class (its Group); and the markup
  does not carry \<^verbatim>\<open>aria-expanded\<close>, which the class produces.
\<close>

definition item_place :: "state \<Rightarrow> path \<Rightarrow> bool" where
  "item_place s i =
     (last i = 0 \<and> tag_of s i = ''a'' \<and>
      tag_of s (butlast i) = ''li'' \<and> classList_contains s (butlast i) ''menu-item'' \<and>
      tag_of s (butlast (butlast i)) = ''ul'')"

definition item_contract :: "state \<Rightarrow> path \<Rightarrow> bool" where
  "item_contract s i =
     (item_place s i \<and>
      (case nextElementSibling s i of
         None \<Rightarrow> True
       | Some g \<Rightarrow> tag_of s g = ''ul'' \<and> \<not> classList_contains s g ''menu--level-1'') \<and>
      \<not> hasAttribute s i ''aria-expanded'')"

definition markup_contract :: "state \<Rightarrow> path \<Rightarrow> bool" where
  "markup_contract s container =
     (case querySelector_scope s container [[Tag ''ul'']] of
        None \<Rightarrow> False
      | Some tn \<Rightarrow> list_all (item_contract s) (querySelectorAll s tn [Class ''menu__link'']))"

text \<open>
  The element \<^verbatim>\<open>isVisible\<close> calls \<^verbatim>\<open>parentTreeItem\<close>: the one before the Item's nearest list,
  the owning Item of the Group the Item is in.
\<close>

definition parentTreeItem :: "state \<Rightarrow> path \<Rightarrow> path option" where
  "parentTreeItem s treeItem =
     (case closest s treeItem [Tag ''ul''] of
        None \<Rightarrow> None
      | Some ul \<Rightarrow> previousElementSibling s ul)"

lemma exists_at_prefix: "exists_at s (p @ q) \<Longrightarrow> exists_at s p"
  by (auto simp: exists_at_def node_at_append split: option.splits)

lemma exists_at_child: "exists_at s (p @ [k]) \<longleftrightarrow> k < child_count s p"
  by (auto simp: exists_at_def child_count_def node_at_append split: option.splits)

lemma exists_at_butlast: "exists_at s p \<Longrightarrow> exists_at s (butlast p)"
  using exists_at_prefix [of s "butlast p" "[last p]"] by (cases "p = []") simp_all




text \<open>An Item under the contract, three levels below the document at least.\<close>

lemma item_shape:
  assumes "item_place s i" and "3 \<le> length i"
  shows "\<exists>u k. i = u @ [k, 0] \<and> u \<noteq> [] \<and> closest s i [Tag ''ul''] = Some u"
proof -
  from assms(2) obtain ys z where ys: "i = ys @ [z]"
    by (cases i rule: rev_cases) auto
  with assms(2) obtain u k where u': "ys = u @ [k]"
    by (cases ys rule: rev_cases) auto
  from ys u' assms(2) have iz: "i = u @ [k, z]" and u: "u \<noteq> []"
    by auto
  from assms(1) have z: "z = 0"
    unfolding iz by (simp add: item_contract_def item_place_def)
  with iz have i: "i = u @ [k, 0]" by simp
  from assms(1) have ta: "tag_of s (u @ [k, 0]) = ''a''"
    and t: "tag_of s (u @ [k]) = ''li''" "tag_of s u = ''ul''"
    unfolding i by (simp_all add: item_contract_def item_place_def butlast_append)
  from u obtain a v where v: "u = a # v" by (cases u) auto
  have "closest s (u @ [k, 0]) [Tag ''ul''] = closest s (u @ [k]) [Tag ''ul'']"
    using ta by (simp add: v matches_def butlast_append)
  also have "\<dots> = closest s u [Tag ''ul'']"
    using t(1) by (simp add: v matches_def butlast_append)
  also have "\<dots> = Some u"
    using t(2) by (simp add: v matches_def)
  finally show ?thesis
    using i u by blast
qed


lemma items_exist: "i \<in> set (querySelectorAll s tn sel) \<Longrightarrow> exists_at s i"
  by (auto simp: querySelectorAll_def descendants_iff)


lemma nextElementSibling_grows:
  assumes "grows I s s'" and "exists_at s (butlast p)" and "butlast p \<notin> I"
  shows "nextElementSibling s' p = nextElementSibling s p"
proof -
  from assms have "child_count s' (butlast p) = child_count s (butlast p)"
    by (simp add: grows_def)
  then show ?thesis
    by (simp add: nextElementSibling_def)
qed

lemma attrs_grows:
  assumes "grows I s s'" and "exists_at s q" and "a \<noteq> ''id''" and "a \<noteq> ''aria-role''"
  shows "attrs s' q a = attrs s q a"
  using assms by (simp add: grows_def)


section \<open>After set-up\<close>

text \<open>
  Claim C5, as the code has it. \<^verbatim>\<open>adjustLinkAttributes\<close> tests \<^verbatim>\<open>item.nextElementSibling\<close>:
  any element after the Item counts, a nested list or not, and nothing removes an
  \<^verbatim>\<open>aria-expanded\<close> that the markup carries. When construction completes, an Item whose
  parent is not itself an Item carries \<^verbatim>\<open>aria-expanded\<close> if and only if an element follows
  it or the markup carried the attribute on it already.
\<close>

theorem expandable_iff_sibling:
  assumes "constructor (JSElement container) s = (Normal this, s')"
    and "item \<in> set (treeItems this)"
    and "butlast item \<notin> set (treeItems this)"
  shows "isExpandable s' item \<longleftrightarrow> nextElementSibling s' item \<noteq> None \<or> isExpandable s item"
proof -
  from constructor_Normal [OF assms(1)] obtain tn where
    items: "treeItems this = querySelectorAll s tn [Class ''menu__link'']"
    and g: "grows (set (treeItems this))
              (adjustLinkAttributes this (setAttribute tn ''role'' ''tree'' s)) s'"
    by blast
  define s1 where "s1 = setAttribute tn ''role'' ''tree'' s"
  define s2 where "s2 = adjustLinkAttributes this s1"
  have d2: "document s2 = document s"
    by (simp add: s2_def s1_def adjustLinkAttributes_def)
  from assms(2) items have ex: "exists_at s item"
    by (simp add: items_exist)
  have h1: "hasAttribute s1 item ''aria-expanded'' = hasAttribute s item ''aria-expanded''"
    by (simp add: s1_def hasAttribute_def attrs_setAttribute)
  have n1: "nextElementSibling s1 item = nextElementSibling s item"
    by (simp add: s1_def)
  have h2: "hasAttribute s2 item ''aria-expanded'' \<longleftrightarrow>
            hasAttribute s item ''aria-expanded'' \<or> nextElementSibling s item \<noteq> None"
    using assms(2) by (simp add: s2_def adjustLinkAttributes_def has_fold_adjustLink h1 n1)
  have h': "isExpandable s' item = hasAttribute s2 item ''aria-expanded''"
    using attrs_grows [OF g [folded s1_def, folded s2_def], of item "''aria-expanded''"] ex
    by (simp add: isExpandable_def hasAttribute_def structure_cong [OF d2])
  have n': "nextElementSibling s' item = nextElementSibling s item"
    using nextElementSibling_grows [OF g [folded s1_def, folded s2_def], of item]
      assms(3) exists_at_butlast [OF ex]
    by (simp add: structure_cong [OF d2])
  from h2 h' n' show ?thesis
    by (auto simp: isExpandable_def)
qed

theorem expandable_iff_sibling_witness:
  "constructor (JSElement [0]) group_page = (Normal group_tree, group_state) \<and>
   [0, 0, 0, 0] \<in> set (treeItems group_tree) \<and> butlast [0, 0, 0, 0] \<notin> set (treeItems group_tree) \<and>
   [0, 0, 1, 0] \<in> set (treeItems group_tree) \<and> butlast [0, 0, 1, 0] \<notin> set (treeItems group_tree) \<and>
   isExpandable group_state [0, 0, 0, 0] =
     (nextElementSibling group_state [0, 0, 0, 0] \<noteq> None \<or> isExpandable group_page [0, 0, 0, 0]) \<and>
   isExpandable group_state [0, 0, 1, 0] =
     (nextElementSibling group_state [0, 0, 1, 0] \<noteq> None \<or> isExpandable group_page [0, 0, 1, 0]) \<and>
   isExpandable group_state [0, 0, 0, 0] \<and> \<not> isExpandable group_state [0, 0, 1, 0]"
proof -
  have "fst (constructor (JSElement [0]) group_page) = Normal group_tree"
    by code_simp
  then have b: "constructor (JSElement [0]) group_page = (Normal group_tree, group_state)"
    by (simp add: group_state_def prod_eq_iff)
  have c: "[0, 0, 0, 0] \<in> set (treeItems group_tree)"
    and c': "butlast [0, 0, 0, 0] \<notin> set (treeItems group_tree)"
    and d: "[0, 0, 1, 0] \<in> set (treeItems group_tree)"
    and d': "butlast [0, 0, 1, 0] \<notin> set (treeItems group_tree)"
    by (simp_all add: group_tree_def)
  have e: "isExpandable group_state [0, 0, 0, 0]"
    by code_simp
  have f: "\<not> isExpandable group_state [0, 0, 1, 0]"
    by code_simp
  note g = expandable_iff_sibling [OF b c c'] and h = expandable_iff_sibling [OF b d d']
  from b c c' d d' g h e f show ?thesis
    by (intro conjI)
qed

text \<open>
  The claim as stated ties the attribute to a Group. An entry whose link is followed by
  a \<^verbatim>\<open>span\<close>: construction completes, the Item receives \<^verbatim>\<open>aria-expanded="false"\<close> and
  \<^verbatim>\<open>aria-owns\<close>, and the element after it is no list; the tree has no Group at all.
\<close>

definition badge_page :: state where
  "badge_page =
     markup (page [Element ''li'' [''menu-item''] []
                     [link [] ''Notes'', Element ''span'' [''badge''] ''new'' []],
                   leaf [] ''Beta''])"

definition badge_tree :: treeview where
  "badge_tree =
     \<lparr>treeNode = Some [0, 0], treeItems = [[0, 0, 0, 0], [0, 0, 1, 0]], subMenus = []\<rparr>"

theorem expanded_without_group:
  "fst (constructor (JSElement [0]) badge_page) = Normal badge_tree \<and>
   [0, 0, 0, 0] \<in> set (treeItems badge_tree) \<and>
   getAttribute (snd (constructor (JSElement [0]) badge_page)) [0, 0, 0, 0] ''aria-expanded''
     = Some ''false'' \<and>
   isExpandable (snd (constructor (JSElement [0]) badge_page)) [0, 0, 0, 0] \<and>
   nextElementSibling (snd (constructor (JSElement [0]) badge_page)) [0, 0, 0, 0]
     = Some [0, 0, 0, 1] \<and>
   tag_of (snd (constructor (JSElement [0]) badge_page)) [0, 0, 0, 1] = ''span'' \<and>
   child_count (snd (constructor (JSElement [0]) badge_page)) [0, 0, 0, 1] = 0 \<and>
   subMenus badge_tree = [] \<and>
   querySelectorAll (snd (constructor (JSElement [0]) badge_page)) [0] [Tag ''ul'']
     = [[0, 0]]"
  by code_simp






section \<open>Traversal at the ends of the tree\<close>

text \<open>
  The markup the traversal methods walk, for an instance whose root list is \<open>tn\<close>: the
  Items are the links found at construction, each the first child of an entry of a list;
  every entry of the root list and of a nested list holds an Item; a nested list follows
  its owning Item; inside the root list the Item role is on Items only; an expandable Item
  has an element after it. Around the tree: the root list is the first element of its
  container, and the element after the container, if any, has no child with the Item
  role.
\<close>

definition well_formed :: "treeview \<Rightarrow> state \<Rightarrow> bool" where
  "well_formed this s =
     (case treeNode this of
        None \<Rightarrow> False
      | Some tn \<Rightarrow>
          tn \<noteq> [] \<and> tag_of s tn = ''ul'' \<and>
          treeItems this = querySelectorAll s tn [Class ''menu__link''] \<and>
          list_all (item_place s) (treeItems this) \<and>
          list_all (\<lambda>ul. list_all (\<lambda>entry. entry @ [0] \<in> set (treeItems this)) (children s ul))
            (tn # querySelectorAll s tn [Tag ''ul'']) \<and>
          list_all (\<lambda>ul. case previousElementSibling s ul of
                           None \<Rightarrow> False
                         | Some owner \<Rightarrow> owner \<in> set (treeItems this))
            (querySelectorAll s tn [Tag ''ul'']) \<and>
          list_all (\<lambda>q. matches s tree_item q \<longrightarrow> q \<in> set (treeItems this))
            (descendants s tn) \<and>
          list_all (\<lambda>i. isExpandable s i \<longrightarrow> nextElementSibling s i \<noteq> None)
            (treeItems this) \<and>
          previousElementSibling s tn = None \<and>
          (case nextElementSibling s (butlast tn) of
             None \<Rightarrow> True
           | Some following \<Rightarrow>
               list_all (\<lambda>child. \<not> matches s tree_item child) (children s following)))"

lemma sorted_last_max:
  fixes xs :: "path list"
  assumes "sorted_wrt (<) xs" and "x \<in> set xs"
  shows "x \<le> last xs"
  using assms by (induction xs) (auto simp: less_imp_le)

lemma sorted_hd_min:
  fixes xs :: "path list"
  assumes "sorted_wrt (<) xs" and "x \<in> set xs"
  shows "hd xs \<le> x"
  using assms by (cases xs) (auto simp: less_imp_le)

lemma scope_steps2:
  assumes "x \<in> set (querySelectorAll_scope s p [c1, c2])"
  shows "\<exists>a b. x = p @ [a, b] \<and> a < child_count s p \<and> b < child_count s (p @ [a]) \<and>
               matches s c2 x"
  using assms by (auto simp: querySelectorAll_scope_def children_def)

lemma scope_none:
  assumes "list_all (\<lambda>child. \<not> matches s sel child) (children s n)"
  shows "querySelector_scope s n [sel] = None"
proof -
  from assms have "filter (matches s sel) (children s n) = []"
    by (simp add: list_all_iff)
  thus ?thesis
    by (simp add: querySelector_scope_def querySelectorAll_scope_def first_of_def)
qed

lemma well_formedD:
  assumes "well_formed this s" and "treeNode this = Some tn"
  shows "tn \<noteq> []" and "tag_of s tn = ''ul''"
    and "treeItems this = querySelectorAll s tn [Class ''menu__link'']"
    and "\<And>i. i \<in> set (treeItems this) \<Longrightarrow> item_place s i"
    and "\<And>u j. u = tn \<or> u \<in> set (querySelectorAll s tn [Tag ''ul'']) \<Longrightarrow> j < child_count s u
           \<Longrightarrow> u @ [j, 0] \<in> set (treeItems this)"
    and "\<And>u. u \<in> set (querySelectorAll s tn [Tag ''ul''])
           \<Longrightarrow> \<exists>l \<in> set (treeItems this). previousElementSibling s u = Some l"
    and "\<And>q. q \<in> set (descendants s tn) \<Longrightarrow> matches s tree_item q \<Longrightarrow> q \<in> set (treeItems this)"
    and "\<And>i. i \<in> set (treeItems this) \<Longrightarrow> isExpandable s i \<Longrightarrow> nextElementSibling s i \<noteq> None"
    and "previousElementSibling s tn = None"
    and "\<And>n. nextElementSibling s (butlast tn) = Some n
           \<Longrightarrow> querySelector_scope s n [tree_item] = None"
proof -
  from assms(1) have w0:
    "(tn \<noteq> []) \<and>
     (tag_of s tn = ''ul'') \<and>
     (treeItems this = querySelectorAll s tn [Class ''menu__link'']) \<and>
     (list_all (item_place s) (treeItems this)) \<and>
     (list_all (\<lambda>ul. list_all (\<lambda>entry. entry @ [0] \<in> set (treeItems this)) (children s ul))
       (tn # querySelectorAll s tn [Tag ''ul''])) \<and>
     (list_all (\<lambda>ul. case previousElementSibling s ul of
                      None \<Rightarrow> False
                    | Some owner \<Rightarrow> owner \<in> set (treeItems this))
       (querySelectorAll s tn [Tag ''ul''])) \<and>
     (list_all (\<lambda>q. matches s tree_item q \<longrightarrow> q \<in> set (treeItems this)) (descendants s tn)) \<and>
     (list_all (\<lambda>i. isExpandable s i \<longrightarrow> nextElementSibling s i \<noteq> None) (treeItems this)) \<and>
     (previousElementSibling s tn = None) \<and>
     (case nextElementSibling s (butlast tn) of
       None \<Rightarrow> True
     | Some following \<Rightarrow>
         list_all (\<lambda>child. \<not> matches s tree_item child) (children s following))"
    unfolding well_formed_def assms(2) option.case .
  have w:
    "tn \<noteq> []" "tag_of s tn = ''ul''"
    "treeItems this = querySelectorAll s tn [Class ''menu__link'']"
    "list_all (item_place s) (treeItems this)"
    "list_all (\<lambda>ul. list_all (\<lambda>entry. entry @ [0] \<in> set (treeItems this)) (children s ul))
       (tn # querySelectorAll s tn [Tag ''ul''])"
    "list_all (\<lambda>ul. case previousElementSibling s ul of
                      None \<Rightarrow> False
                    | Some owner \<Rightarrow> owner \<in> set (treeItems this))
       (querySelectorAll s tn [Tag ''ul''])"
    "list_all (\<lambda>q. matches s tree_item q \<longrightarrow> q \<in> set (treeItems this)) (descendants s tn)"
    "list_all (\<lambda>i. isExpandable s i \<longrightarrow> nextElementSibling s i \<noteq> None) (treeItems this)"
    "previousElementSibling s tn = None"
    "case nextElementSibling s (butlast tn) of
       None \<Rightarrow> True
     | Some following \<Rightarrow>
         list_all (\<lambda>child. \<not> matches s tree_item child) (children s following)"
    using w0 apply -
    apply (elim conjE, assumption)+
    done
  show "tn \<noteq> []" "tag_of s tn = ''ul''"
    "treeItems this = querySelectorAll s tn [Class ''menu__link'']"
    "previousElementSibling s tn = None"
    by (fact w)+
  show "item_place s i" if "i \<in> set (treeItems this)" for i
    using w(4) that by (simp add: list_all_iff)
  show "u @ [j, 0] \<in> set (treeItems this)"
    if "u = tn \<or> u \<in> set (querySelectorAll s tn [Tag ''ul''])" "j < child_count s u" for u j
  proof -
    from w(5) that(1)
    have "list_all (\<lambda>entry. entry @ [0] \<in> set (treeItems this)) (children s u)"
      by (auto simp: list_all_iff)
    with that(2) show ?thesis
      by (simp add: list_all_iff children_def)
  qed
  show "\<exists>l \<in> set (treeItems this). previousElementSibling s u = Some l"
    if "u \<in> set (querySelectorAll s tn [Tag ''ul''])" for u
  proof (cases "previousElementSibling s u")
    case None
    with w(6) that show ?thesis
      by (auto simp: list_all_iff)
  next
    case (Some l)
    with w(6) that show ?thesis
      by (auto simp: list_all_iff)
  qed
  show "q \<in> set (treeItems this)" if "q \<in> set (descendants s tn)" "matches s tree_item q" for q
    using w(7) that by (simp add: list_all_iff)
  show "nextElementSibling s i \<noteq> None" if "i \<in> set (treeItems this)" "isExpandable s i" for i
    using w(8) that by (simp add: list_all_iff)
  show "querySelector_scope s n [tree_item] = None"
    if "nextElementSibling s (butlast tn) = Some n" for n
    using w(10) that by (simp add: scope_none)
qed

text \<open>An Item lies two steps below the root list or below a nested list.\<close>

lemma well_formed_item:
  assumes wf: "well_formed this s" and tn: "treeNode this = Some tn"
    and i: "i \<in> set (treeItems this)"
  shows "\<exists>u k. i = u @ [k, 0] \<and> u \<noteq> [] \<and> closest s i [Tag ''ul''] = Some u \<and>
               (u = tn \<or> u \<in> set (querySelectorAll s tn [Tag ''ul''])) \<and>
               k < child_count s u \<and> (\<exists>r. u = tn @ r)"
proof -
  note d = well_formedD [OF wf tn]
  have ip: "item_place s i"
    using d(4) i .
  from i have "i \<in> set (descendants s tn)"
    by (simp add: d(3) querySelectorAll_def)
  then obtain r where r: "i = tn @ r" "r \<noteq> []" "exists_at s i"
    by (auto simp: descendants_iff)
  have "length r \<noteq> 1"
  proof
    assume "length r = 1"
    then obtain k where "r = [k]"
      by (cases r) auto
    with r(1) ip d(2) show False
      by (simp add: item_place_def)
  qed
  with r(2) have len: "2 \<le> length r"
    by (cases r) (auto simp: Suc_le_eq)
  with r(1) d(1) have "3 \<le> length i"
    by (cases tn) auto
  from item_shape [OF ip this] obtain u k
    where u: "i = u @ [k, 0]" "u \<noteq> []" "closest s i [Tag ''ul''] = Some u"
    by blast
  from r(2) obtain r1 b where r1: "r = r1 @ [b]"
    by (cases r rule: rev_cases) auto
  with len have "r1 \<noteq> []"
    by auto
  then obtain r2 a where r2: "r1 = r2 @ [a]"
    by (cases r1 rule: rev_cases) auto
  have "butlast (butlast i) = u"
    unfolding u(1) by (simp add: butlast_append)
  moreover have "butlast (butlast i) = tn @ r2"
    unfolding r(1) r1 r2 by (simp add: butlast_append)
  ultimately have ur: "u = tn @ r2"
    by simp
  have "exists_at s ((u @ [k]) @ [0])"
    using r(3) by (simp add: u(1))
  hence "exists_at s (u @ [k])"
    by (rule exists_at_prefix)
  hence k: "k < child_count s u"
    by (simp add: exists_at_child)
  have tag: "tag_of s u = ''ul''"
    using ip unfolding u(1) by (simp add: item_place_def butlast_append)
  have "u = tn \<or> u \<in> set (querySelectorAll s tn [Tag ''ul''])"
  proof (cases "r2 = []")
    case True
    with ur show ?thesis
      by simp
  next
    case False
    have "exists_at s (u @ [k])"
      by fact
    hence "exists_at s u"
      by (rule exists_at_prefix)
    with ur False have "u \<in> set (descendants s tn)"
      by (auto simp: descendants_iff)
    with tag show ?thesis
      by (simp add: querySelectorAll_def matches_def)
  qed
  with u k ur show ?thesis
    by blast
qed

text \<open>
  From an Item after which the tree has no Item, \<^verbatim>\<open>setFocusToNextTreeItem\<close> takes none of
  its branches that focus: an element it could reach would be a later Item.
\<close>

lemma next_at_end:
  assumes wf: "well_formed this s" and tn: "treeNode this = Some tn"
    and L: "L \<in> set (treeItems this)"
    and mx: "\<And>x. x \<in> set (treeItems this) \<Longrightarrow> \<not> L < x"
  shows "setFocusToNextTreeItem L s = (Normal (), s)"
proof -
  note d = well_formedD [OF wf tn]
  from well_formed_item [OF wf tn L] obtain u k r
    where u: "L = u @ [k, 0]" "u \<noteq> []" "closest s L [Tag ''ul''] = Some u"
      "u = tn \<or> u \<in> set (querySelectorAll s tn [Tag ''ul''])" "k < child_count s u"
      "u = tn @ r"
    by blast
  show ?thesis
  proof (cases "isExpanded s L")
    case True
    hence "isExpandable s L"
      by (simp add: isExpanded_def isExpandable_def hasAttribute_def getAttribute_def)
    with d(8) [OF L] obtain g where g: "nextElementSibling s L = Some g"
      by blast
    hence gu: "g = u @ [k, 1]"
      by (auto simp: nextElementSibling_def u(1) butlast_append split: if_splits)
    have "querySelectorAll_scope s g [[Tag ''li''], tree_item] = []"
    proof (rule ccontr)
      assume "querySelectorAll_scope s g [[Tag ''li''], tree_item] \<noteq> []"
      then obtain x where "x \<in> set (querySelectorAll_scope s g [[Tag ''li''], tree_item])"
        by (meson last_in_set)
      from scope_steps2 [OF this] obtain a b
        where x: "x = g @ [a, b]" "b < child_count s (g @ [a])" "matches s tree_item x"
        by blast
      from x(2) have "exists_at s ((g @ [a]) @ [b])"
        by (simp only: exists_at_child)
      hence ex: "exists_at s x"
        by (simp add: x(1))
      have "x = tn @ (r @ [k, 1, a, b])"
        by (simp add: x(1) gu u(6))
      with ex have "x \<in> set (descendants s tn)"
        unfolding descendants_iff by blast
      from d(7) [OF this x(3)] have "x \<in> set (treeItems this)" .
      moreover have "L < x"
        by (simp add: u(1) x(1) gu append_less_iff)
      ultimately show False
        using mx by blast
    qed
    with True g show ?thesis
      by (simp add: setFocusToNextTreeItem_def)
  next
    case False
    have pn: "parentNode L = Some (u @ [k])"
      by (simp add: parentNode_def u(1) butlast_append)
    have e: "nextElementSibling s (u @ [k]) = None"
    proof (rule ccontr)
      assume "nextElementSibling s (u @ [k]) \<noteq> None"
      hence "Suc k < child_count s u"
        by (auto simp: nextElementSibling_def split: if_splits)
      from d(5) [OF u(4) this] have "u @ [Suc k, 0] \<in> set (treeItems this)" .
      moreover have "L < u @ [Suc k, 0]"
        by (simp add: u(1) append_less_iff)
      ultimately show False
        using mx by blast
    qed
    have pu: "parentNode u = Some (butlast u)"
      using u(2) by (simp add: parentNode_def)
    have after: "case nextElementSibling s (butlast u) of
                   None \<Rightarrow> True
                 | Some n \<Rightarrow> querySelector_scope s n [tree_item] = None"
    proof (cases "u = tn")
      case True
      thus ?thesis
        using d(10) by (auto split: option.splits)
    next
      case False
      with u(4) have "u \<in> set (querySelectorAll s tn [Tag ''ul''])"
        by simp
      from d(6) [OF this] obtain l
        where l: "l \<in> set (treeItems this)" "previousElementSibling s u = Some l"
        by blast
      from well_formed_item [OF wf tn l(1)] obtain v m
        where v: "l = v @ [m, 0]"
          "v = tn \<or> v \<in> set (querySelectorAll s tn [Tag ''ul''])"
        by blast
      from l(2) have a: "0 < last u" "l = butlast u @ [last u - 1]"
        by (auto simp: previousElementSibling_def split: if_splits)
      have "butlast l = butlast u" "last l = last u - 1"
        by (simp_all add: a(2))
      moreover have "butlast l = v @ [m]" "last l = 0"
        by (simp_all add: v(1) butlast_append)
      ultimately have bu: "butlast u = v @ [m]" and "last u - 1 = 0"
        by simp_all
      with a(1) have "last u = 1"
        by simp
      with bu have uv: "u = v @ [m, 1]"
        using append_butlast_last_id [OF u(2)] by simp
      have "nextElementSibling s (butlast u) = None"
      proof (rule ccontr)
        assume "nextElementSibling s (butlast u) \<noteq> None"
        hence "Suc m < child_count s v"
          by (auto simp: bu nextElementSibling_def split: if_splits)
        from d(5) [OF v(2) this] have "v @ [Suc m, 0] \<in> set (treeItems this)" .
        moreover have "L < v @ [Suc m, 0]"
          by (simp add: u(1) uv append_less_iff)
        ultimately show False
          using mx by blast
      qed
      thus ?thesis
        by simp
    qed
    show ?thesis
    proof (cases "nextElementSibling s (butlast u)")
      case None
      with False pn e u(3) pu show ?thesis
        by (simp add: setFocusToNextTreeItem_def)
    next
      case (Some n)
      with after have "querySelector_scope s n [tree_item] = None"
        by simp
      with Some False pn e u(3) pu show ?thesis
        by (simp add: setFocusToNextTreeItem_def)
    qed
  qed
qed

text \<open>
  From an Item before which the tree has no Item, \<^verbatim>\<open>setFocusToPreviousTreeItem\<close> finds no
  entry before the Item's entry and no element before its list.
\<close>

lemma previous_at_start:
  assumes wf: "well_formed this s" and tn: "treeNode this = Some tn"
    and F: "F \<in> set (treeItems this)"
    and mn: "\<And>x. x \<in> set (treeItems this) \<Longrightarrow> \<not> x < F"
  shows "setFocusToPreviousTreeItem F s = (Normal (), s)"
proof -
  note d = well_formedD [OF wf tn]
  from well_formed_item [OF wf tn F] obtain u k
    where u: "F = u @ [k, 0]" "u \<noteq> []"
      "u = tn \<or> u \<in> set (querySelectorAll s tn [Tag ''ul''])"
    by blast
  have pn: "parentNode F = Some (u @ [k])"
    by (simp add: parentNode_def u(1) butlast_append)
  have e: "previousElementSibling s (u @ [k]) = None"
  proof (rule ccontr)
    assume "previousElementSibling s (u @ [k]) \<noteq> None"
    hence k: "0 < k" "k < child_count s u"
      by (auto simp: previousElementSibling_def split: if_splits)
    hence "k - 1 < child_count s u"
      by simp
    from d(5) [OF u(3) this] have "u @ [k - 1, 0] \<in> set (treeItems this)" .
    moreover from k(1) have "u @ [k - 1, 0] < F"
      by (simp add: u(1) append_less_iff)
    ultimately show False
      using mn by blast
  qed
  have pe: "parentNode (u @ [k]) = Some u"
    by (simp add: parentNode_def)
  have b: "previousElementSibling s u = None"
  proof (cases "u = tn")
    case True
    thus ?thesis
      using d(9) by simp
  next
    case False
    with u(3) have "u \<in> set (querySelectorAll s tn [Tag ''ul''])"
      by simp
    from d(6) [OF this] obtain l
      where l: "l \<in> set (treeItems this)" "previousElementSibling s u = Some l"
      by blast
    from l(2) have a: "0 < last u" "l = butlast u @ [last u - 1]"
      by (auto simp: previousElementSibling_def split: if_splits)
    have "F = butlast u @ [last u, k, 0]"
      using append_butlast_last_id [OF u(2)] by (simp add: u(1))
    with a have "l < F"
      by (simp add: append_less_iff)
    with mn [OF l(1)] show ?thesis
      by simp
  qed
  from pn e pe b show ?thesis
    by (simp add: setFocusToPreviousTreeItem_def)
qed

text \<open>
  In such a tree with at least one Item, \<^verbatim>\<open>setFocusToNextTreeItem\<close> called on the last
  Item and \<^verbatim>\<open>setFocusToPreviousTreeItem\<close> called on the first Item complete normally and
  return the state they were given: the focus, every attribute and everything else are
  as before.
\<close>

lemma traversal_boundaries:
  assumes "well_formed this s" and "treeItems this \<noteq> []"
  shows "setFocusToNextTreeItem (last (treeItems this)) s = (Normal (), s) \<and>
         setFocusToPreviousTreeItem (hd (treeItems this)) s = (Normal (), s)"
proof -
  from assms(1) obtain tn where tn: "treeNode this = Some tn"
    by (auto simp: well_formed_def split: option.splits)
  have "sorted_wrt (<) (treeItems this)"
    unfolding well_formedD(3) [OF assms(1) tn] by (rule sorted_querySelectorAll)
  hence mx: "\<not> last (treeItems this) < x" and mn: "\<not> x < hd (treeItems this)"
    if "x \<in> set (treeItems this)" for x
    using sorted_last_max [of "treeItems this" x] sorted_hd_min [of "treeItems this" x] that
    by auto
  from assms(2) have "last (treeItems this) \<in> set (treeItems this)"
    and "hd (treeItems this) \<in> set (treeItems this)"
    by simp_all
  with assms(1) tn mx mn show ?thesis
    by (simp add: next_at_end previous_at_start)
qed

text \<open>
  Intro, then Guide owning Setup and Usage, with Usage marked active: after construction
  Guide is expanded, the first Item is at root level and the last Item is nested.
\<close>

definition nested_page :: state where
  "nested_page =
     markup (page [leaf [] ''Intro'',
                   branch [] ''Guide'' [leaf [] ''Setup'', leaf [''is-active''] ''Usage'']])"

definition nested_tree :: treeview where
  "nested_tree =
     \<lparr>treeNode = Some [0, 0],
      treeItems = [[0, 0, 0, 0], [0, 0, 1, 0], [0, 0, 1, 1, 0, 0], [0, 0, 1, 1, 1, 0]],
      subMenus = [[0, 0, 1, 1]]\<rparr>"

definition nested_state :: state where
  "nested_state = snd (constructor (JSElement [0]) nested_page)"

lemma traversal_boundaries_example:
  "fst (constructor (JSElement [0]) nested_page) = Normal nested_tree \<and>
   well_formed nested_tree nested_state \<and>
   isExpanded nested_state [0, 0, 1, 0] \<and>
   setFocusToNextTreeItem [0, 0, 1, 1, 1, 0] nested_state = (Normal (), nested_state) \<and>
   setFocusToPreviousTreeItem [0, 0, 0, 0] nested_state = (Normal (), nested_state)"
proof -
  have c: "fst (constructor (JSElement [0]) nested_page) = Normal nested_tree"
    by code_simp
  have w: "well_formed nested_tree nested_state"
    by code_simp
  have x: "isExpanded nested_state [0, 0, 1, 0]"
    by code_simp
  have n: "treeItems nested_tree \<noteq> []"
    and "last (treeItems nested_tree) = [0, 0, 1, 1, 1, 0]"
    and "hd (treeItems nested_tree) = [0, 0, 0, 0]"
    by (simp_all add: nested_tree_def)
  with traversal_boundaries [OF w n] c w x show ?thesis
    by simp
qed

text \<open>
  A container that holds a button and then the root list of two Items; after
  construction the first Item is given the focus.
\<close>

definition toolbar_page :: state where
  "toolbar_page =
     markup (Element ''#document'' [] []
               [Element ''nav'' [''book-navigation''] []
                  [Element ''button'' [''menu-toggle''] ''Menu'' [],
                   Element ''ul'' [''menu'', ''menu--level-1''] []
                     [leaf [] ''One'', leaf [] ''Two'']]])"

definition toolbar_tree :: treeview where
  "toolbar_tree =
     \<lparr>treeNode = Some [0, 1], treeItems = [[0, 1, 0, 0], [0, 1, 1, 0]], subMenus = []\<rparr>"

definition toolbar_state :: state where
  "toolbar_state = focus [0, 1, 0, 0] (snd (constructor (JSElement [0]) toolbar_page))"

text \<open>
  Claim C10. The claim is that at the ends of a well-formed tree both traversals do
  nothing. \<^verbatim>\<open>setFocusToPreviousTreeItem\<close> does something when an element precedes the root
  list: for an Item in the first entry of its list it takes the element before that list
  for the owning Item (\<^verbatim>\<open>parentLink\<close>) and focuses it, and before the root list that
  element is not in the tree. A container holding a button and then the root list of two
  Items follows the structural contract; with the first Item focused, the call, and
  \<^verbatim>\<open>ArrowUp\<close> through \<^verbatim>\<open>onKeydown\<close>, complete normally and leave the focus on the button.
\<close>

theorem previous_leaves_the_tree:
  "markup_contract toolbar_page [0] \<and>
   fst (constructor (JSElement [0]) toolbar_page) = Normal toolbar_tree \<and>
   hd (treeItems toolbar_tree) = [0, 1, 0, 0] \<and>
   activeElement toolbar_state = Some [0, 1, 0, 0] \<and>
   fst (setFocusToPreviousTreeItem [0, 1, 0, 0] toolbar_state) = Normal () \<and>
   activeElement (snd (setFocusToPreviousTreeItem [0, 1, 0, 0] toolbar_state)) = Some [0, 0] \<and>
   fst (onKeydown toolbar_tree (keydown [0, 1, 0, 0] ''ArrowUp'') toolbar_state)
     = Normal True \<and>
   activeElement (snd (onKeydown toolbar_tree (keydown [0, 1, 0, 0] ''ArrowUp'') toolbar_state))
     = Some [0, 0] \<and>
   tag_of toolbar_state [0, 0] = ''button'' \<and>
   [0, 0] \<notin> set (descendants toolbar_state [0, 1]) \<and>
   [0, 0] \<notin> set (treeItems toolbar_tree)"
  by code_simp

end
